theory Spec2Isabelle
  imports Complex_Main "HOL-Library.Word" "HOL-Library.AList" "HOL-Library.Sublist" "HOL-Library.Log_Nat"
begin

unbundle bit_operations_syntax

section \<open>Floating-point numbers\<close>

text \<open>
  A JavaScript number is an IEEE 754 double: a finite value, one of the two
  infinities, or \<^verbatim>\<open>NaN\<close>. The finite doubles are the rationals \<open>m * 2 ^ k\<close> with
  \<open>\<bar>m\<bar> < 2 ^ 53\<close> and \<open>- 1074 \<le> k \<le> 971\<close>. The two zeros are one value here: the
  functions below divide by 100, by 10 and by a difference of two numbers (which is
  never the negative zero), and \<^verbatim>\<open>String\<close> and \<^verbatim>\<open>JSON.stringify\<close> print both zeros
  alike.
\<close>

datatype number = Finite rat | Infinity | NegInfinity | NaN

text \<open>
  The exponent of a rational \<open>x \<noteq> 0\<close>: the integer \<open>e\<close> with
  \<open>2 ^ e \<le> \<bar>x\<bar> < 2 ^ (e + 1)\<close>.
\<close>

definition ilog2 :: "rat \<Rightarrow> int" where
  "ilog2 x =
     (if 1 \<le> \<bar>x\<bar> then int (floorlog 2 (nat \<lfloor>\<bar>x\<bar>\<rfloor>)) - 1
      else - int (floorlog 2 (nat (\<lceil>1 / \<bar>x\<bar>\<rceil> - 1))))"

text \<open>The nearest integer, a tie going to the even one.\<close>

definition roundTiesToEven :: "rat \<Rightarrow> int" where
  "roundTiesToEven x =
     (let n = \<lfloor>x\<rfloor>; d = x - of_int n
      in if d < 1 / 2 then n else if 1 / 2 < d then n + 1 else if even n then n else n + 1)"

text \<open>
  The double that an exact result is rounded to (round to nearest, ties to even):
  the result is rounded to a multiple of \<open>2 ^ (e - 52)\<close>, where \<open>e\<close> is its exponent
  and at least \<open>- 1022\<close> (below \<open>2 ^ - 1022\<close> the doubles are the multiples of
  \<open>2 ^ - 1074\<close>); what rounds to \<open>2 ^ 1024\<close> or beyond becomes an infinity.
\<close>

definition nearest_double :: "rat \<Rightarrow> number" where
  "nearest_double x =
     (if x = 0 then Finite 0
      else let e = max (ilog2 x) (- 1022);
               q = 2 powi (e - 52);
               y = of_int (roundTiesToEven (x / q)) * q
           in if 2 ^ 1024 \<le> \<bar>y\<bar> then (if 0 < x then Infinity else NegInfinity) else Finite y)"

text \<open>
  The number that a decimal integer denotes, for the integers that \<^verbatim>\<open>parseInt\<close>
  and \<^verbatim>\<open>JSON.parse\<close> hand to the functions below.
\<close>

definition Number_of_int :: "int \<Rightarrow> number" where
  "Number_of_int n = nearest_double (of_int n)"

text \<open>
  The arithmetic operators \<^verbatim>\<open>-\<close> (unary and binary), \<^verbatim>\<open>+\<close>, \<^verbatim>\<open>*\<close> and \<^verbatim>\<open>/\<close> on
  numbers: on finite operands the exact result, rounded; the other cases as IEEE 754
  has them.
\<close>

definition is_negative :: "number \<Rightarrow> bool" where
  "is_negative a = (case a of Finite x \<Rightarrow> x < 0 | NegInfinity \<Rightarrow> True | _ \<Rightarrow> False)"

definition signed_Infinity :: "bool \<Rightarrow> number" where
  "signed_Infinity negative = (if negative then NegInfinity else Infinity)"

definition Number_unaryMinus :: "number \<Rightarrow> number" where
  "Number_unaryMinus a =
     (case a of Finite x \<Rightarrow> Finite (- x) | Infinity \<Rightarrow> NegInfinity
      | NegInfinity \<Rightarrow> Infinity | NaN \<Rightarrow> NaN)"

definition Number_add :: "number \<Rightarrow> number \<Rightarrow> number" where
  "Number_add a b =
     (case (a, b) of
        (Finite x, Finite y) \<Rightarrow> nearest_double (x + y)
      | _ \<Rightarrow> if a = NaN \<or> b = NaN \<or> (a = Infinity \<and> b = NegInfinity)
                 \<or> (a = NegInfinity \<and> b = Infinity) then NaN
             else if a = Infinity \<or> b = Infinity then Infinity else NegInfinity)"

definition Number_subtract :: "number \<Rightarrow> number \<Rightarrow> number" where
  "Number_subtract a b = Number_add a (Number_unaryMinus b)"

definition Number_multiply :: "number \<Rightarrow> number \<Rightarrow> number" where
  "Number_multiply a b =
     (case (a, b) of
        (Finite x, Finite y) \<Rightarrow> nearest_double (x * y)
      | _ \<Rightarrow> if a = NaN \<or> b = NaN \<or> a = Finite 0 \<or> b = Finite 0 then NaN
             else signed_Infinity (is_negative a \<noteq> is_negative b))"

definition Number_divide :: "number \<Rightarrow> number \<Rightarrow> number" where
  "Number_divide a b =
     (case (a, b) of
        (Finite x, Finite y) \<Rightarrow>
          if y = 0 then (if x = 0 then NaN else signed_Infinity (x < 0))
          else nearest_double (x / y)
      | (Finite x, _) \<Rightarrow> if b = NaN then NaN else Finite 0
      | (_, Finite y) \<Rightarrow> if a = NaN then NaN else signed_Infinity (is_negative a \<noteq> (y < 0))
      | _ \<Rightarrow> NaN)"

text \<open>
  \<^verbatim>\<open>Math.round\<close> returns the nearest integer and rounds a tie towards plus infinity:
  it is \<open>\<lfloor>x + 1/2\<rfloor>\<close>, which is a double whenever \<open>x\<close> is one. An infinity and \<^verbatim>\<open>NaN\<close>
  are returned as they are.
\<close>

definition Math_round :: "number \<Rightarrow> number" where
  "Math_round a = (case a of Finite x \<Rightarrow> Finite (of_int \<lfloor>x + 1 / 2\<rfloor>) | _ \<Rightarrow> a)"

section \<open>Configuration and the translation functions\<close>

text \<open>
  \<^verbatim>\<open>CONFIG\<close> of \<^verbatim>\<open>server.js\<close>: only the two calibration fields enter the
  functions modelled here; each is the integer that \<^verbatim>\<open>parseInt\<close> read from the
  environment, or the default. The defaults are 73 (fully closed) and 100 (fully open).
\<close>

record config =
  SHADE_MIN :: int
  SHADE_MAX :: int

definition default_CONFIG :: config where
  "default_CONFIG = \<lparr>SHADE_MIN = 73, SHADE_MAX = 100\<rparr>"

text \<open>
  \<^verbatim>\<open>percentToCommand\<close>, lines 164-167, for an integer \<^verbatim>\<open>percent\<close>:
  \<^verbatim>\<open>Math.round(CONFIG.SHADE_MIN + (percent * range / 100))\<close>, every operator rounding
  its result.
\<close>

definition percentToCommand :: "config \<Rightarrow> int \<Rightarrow> number" where
  "percentToCommand CONFIG percent =
     (let rng = Number_subtract (Number_of_int (SHADE_MAX CONFIG))
                  (Number_of_int (SHADE_MIN CONFIG))
      in Math_round (Number_add (Number_of_int (SHADE_MIN CONFIG))
           (Number_divide (Number_multiply (Number_of_int percent) rng) (Finite 100))))"

text \<open>
  \<^verbatim>\<open>commandToPercent\<close>, lines 170-173:
  \<^verbatim>\<open>Math.round((command - CONFIG.SHADE_MIN) * 100 / range)\<close>. With an empty
  calibration range the quotient is an infinity or \<^verbatim>\<open>NaN\<close>.
\<close>

definition commandToPercent :: "config \<Rightarrow> number \<Rightarrow> number" where
  "commandToPercent CONFIG command =
     (let rng = Number_subtract (Number_of_int (SHADE_MAX CONFIG))
                  (Number_of_int (SHADE_MIN CONFIG))
      in Math_round (Number_divide
           (Number_multiply (Number_subtract command (Number_of_int (SHADE_MIN CONFIG)))
              (Finite 100))
           rng))"

text \<open>
  \<^verbatim>\<open>positionToPercent\<close>, lines 176-178. The argument is the \<^verbatim>\<open>position\<close> field of a
  status object: an integer, or \<^verbatim>\<open>undefined\<close> (\<open>None\<close>), which the division converts
  to \<^verbatim>\<open>NaN\<close>.
\<close>

definition positionToPercent :: "int option \<Rightarrow> number" where
  "positionToPercent position =
     Math_round (Number_divide
       (case position of None \<Rightarrow> NaN | Some n \<Rightarrow> Number_of_int n) (Finite 10))"

section \<open>Frame codec\<close>

type_synonym byte = "8 word"
type_synonym bytes = "byte list"

text \<open>
  The exceptions of the modelled code. \<open>RangeError\<close> is what the \<^verbatim>\<open>Buffer\<close> readers
  throw for an offset outside the buffer; \<open>SyntaxError\<close> and \<open>TypeError\<close> are what
  \<^verbatim>\<open>JSON.parse\<close> and a property read of \<^verbatim>\<open>null\<close> throw.
\<close>

datatype js_error = RangeError | SyntaxError | TypeError

text \<open>
  \<^verbatim>\<open>buffer.readUInt16BE(offset)\<close> and \<^verbatim>\<open>buffer.readBigUInt64BE(offset)\<close>: the
  big-endian value of 2 and of 8 bytes, a \<open>RangeError\<close> when they are not all inside
  the buffer.
\<close>

definition readUIntBE :: "bytes \<Rightarrow> nat \<Rightarrow> nat \<Rightarrow> js_error + nat" where
  "readUIntBE buffer offset n =
     (if offset + n \<le> length buffer
      then Inr (foldl (\<lambda>acc b. acc * 256 + unat b) 0 (take n (drop offset buffer)))
      else Inl RangeError)"

definition readUInt16BE :: "bytes \<Rightarrow> nat \<Rightarrow> js_error + nat" where
  "readUInt16BE buffer offset = readUIntBE buffer offset 2"

definition readBigUInt64BE :: "bytes \<Rightarrow> nat \<Rightarrow> js_error + nat" where
  "readBigUInt64BE buffer offset = readUIntBE buffer offset 8"

text \<open>
  \<^verbatim>\<open>Number(b)\<close> for a non-negative BigInt \<open>b\<close>: the nearest double, ties to the
  even significand. Below \<open>2 ^ 53\<close> every integer is a double; above, the value is
  rounded to 53 significant bits.
\<close>

definition Number_of_BigInt :: "nat \<Rightarrow> nat" where
  "Number_of_BigInt n =
     (if n < 2 ^ 53 then n
      else let e = floorlog 2 n - 53;
               q = n div 2 ^ e;
               r = n mod 2 ^ e;
               h = 2 ^ (e - 1)
           in (if h < r \<or> (r = h \<and> odd q) then q + 1 else q) * 2 ^ e)"

text \<open>
  The largest length a \<^verbatim>\<open>Buffer\<close> can have (\<^verbatim>\<open>buffer.constants.MAX_LENGTH\<close>) is at
  most \<open>2 ^ 53 - 1\<close> on every platform.
\<close>

definition MAX_LENGTH :: nat where
  "MAX_LENGTH = 2 ^ 53 - 1"

text \<open>\<^verbatim>\<open>buffer.slice(start, end)\<close> for \<open>0 \<le> start\<close>: both ends are clamped to the buffer.\<close>

definition slice :: "bytes \<Rightarrow> nat \<Rightarrow> nat \<Rightarrow> bytes" where
  "slice buffer start end' = take (end' - start) (drop start buffer)"

text \<open>
  The unmasking loop, lines 243-245:
  \<^verbatim>\<open>for (let i = 0; i < payload.length; i++) payload[i] ^= maskKey[i % 4];\<close>
\<close>

function unmask_loop :: "bytes \<Rightarrow> nat \<Rightarrow> bytes \<Rightarrow> bytes" where
  "unmask_loop maskKey i payload =
     (if i < length payload
      then unmask_loop maskKey (i + 1) (payload[i := (payload ! i) XOR (maskKey ! (i mod 4))])
      else payload)"
  by pat_completeness auto
termination
  by (relation "measure (\<lambda>(maskKey, i, payload). length payload - i)") auto

declare unmask_loop.simps [simp del]

text \<open>The object that \<^verbatim>\<open>parseWebSocketFrame\<close> returns.\<close>

record frame =
  opcode :: byte
  payload :: bytes
  totalLength :: nat

text \<open>
  The length field, lines 218-229: the 7-bit length itself, or the 16-bit or 64-bit
  field that follows when it is 126 or 127. The result is the payload length and the
  offset behind the length field, \<open>None\<close> for the early \<^verbatim>\<open>return null\<close>.
\<close>

definition read_payloadLength :: "bytes \<Rightarrow> byte \<Rightarrow> js_error + (nat \<times> nat) option" where
  "read_payloadLength buffer secondByte =
     (let payloadLength = unat (secondByte AND 0x7F)
      in if payloadLength = 126 then
           (if length buffer < 4 then Inr None
            else case readUInt16BE buffer 2 of
                   Inl e \<Rightarrow> Inl e
                 | Inr n \<Rightarrow> Inr (Some (n, 4)))
         else if payloadLength = 127 then
           (if length buffer < 10 then Inr None
            else case readBigUInt64BE buffer 2 of
                   Inl e \<Rightarrow> Inl e
                 | Inr n \<Rightarrow> Inr (Some (Number_of_BigInt n, 10)))
         else Inr (Some (payloadLength, 2)))"

text \<open>
  \<^verbatim>\<open>parseWebSocketFrame\<close>, lines 212-249. \<open>Inr None\<close> is \<^verbatim>\<open>return null\<close>, \<open>Inl\<close> an
  exception of a buffer read.
\<close>

definition parseWebSocketFrame :: "bytes \<Rightarrow> js_error + frame option" where
  "parseWebSocketFrame buffer =
     (if length buffer < 2 then Inr None
      else
        let firstByte = buffer ! 0;
            secondByte = buffer ! 1;
            opc = firstByte AND 0x0F;
            masked = (secondByte AND 0x80 \<noteq> 0)
        in case read_payloadLength buffer secondByte of
             Inl e \<Rightarrow> Inl e
           | Inr None \<Rightarrow> Inr None
           | Inr (Some (payloadLength, offset)) \<Rightarrow>
               if masked \<and> length buffer < offset + 4 then Inr None
               else
                 let maskKey = (if masked then Some (slice buffer offset (offset + 4)) else None);
                     offset = (if masked then offset + 4 else offset)
                 in if length buffer < offset + payloadLength then Inr None
                    else
                      let payload = slice buffer offset (offset + payloadLength);
                          payload = (case maskKey of
                                       Some k \<Rightarrow> unmask_loop k 0 payload
                                     | None \<Rightarrow> payload)
                      in Inr (Some \<lparr>opcode = opc, payload = payload,
                                     totalLength = offset + payloadLength\<rparr>))"

text \<open>
  \<^verbatim>\<open>frame.writeUInt16BE(v, 2)\<close> and \<^verbatim>\<open>frame.writeBigUInt64BE(BigInt(v), 2)\<close>: the
  \<open>n\<close> big-endian bytes of \<open>v\<close>.
\<close>

fun writeUIntBE :: "nat \<Rightarrow> nat \<Rightarrow> bytes" where
  "writeUIntBE 0 v = []"
| "writeUIntBE (Suc n) v = writeUIntBE n (v div 256) @ [of_nat (v mod 256)]"

text \<open>
  The frame that \<^verbatim>\<open>sendWebSocketFrame\<close> (lines 251-276) builds for a payload and an
  opcode: the FIN bit, the smallest length encoding, no mask.
\<close>

definition frame_of :: "bytes \<Rightarrow> byte \<Rightarrow> bytes" where
  "frame_of data opc =
     (if length data < 126 then
        [0x80 OR opc, of_nat (length data)] @ data
      else if length data < 65536 then
        [0x80 OR opc, 126] @ writeUIntBE 2 (length data) @ data
      else
        [0x80 OR opc, 127] @ writeUIntBE 8 (length data) @ data)"

section \<open>Numbers and strings\<close>

text \<open>
  \<^verbatim>\<open>String(n)\<close> for an integer \<open>n\<close>: its decimal digits, with a minus sign when
  negative. (JavaScript switches to exponent notation from \<open>10 ^ 21\<close> on; identities
  are far smaller.)
\<close>

function string_of_nat :: "nat \<Rightarrow> string" where
  "string_of_nat n =
     (if n < 10 then [''0123456789'' ! n]
      else string_of_nat (n div 10) @ [''0123456789'' ! (n mod 10)])"
  by pat_completeness auto
termination
  by (relation "measure id") auto

declare string_of_nat.simps [simp del]

definition String_of_number :: "int \<Rightarrow> string" where
  "String_of_number n =
     (if n < 0 then CHR ''-'' # string_of_nat (nat (- n)) else string_of_nat (nat n))"

text \<open>
  \<^verbatim>\<open>parseInt(s)\<close> for the strings the call sites pass, which match \<^verbatim>\<open>\d+\<close>: the
  value of the leading decimal digits, \<^verbatim>\<open>NaN\<close> (\<open>None\<close>) when there is none. Leading
  white space, a sign and the \<^verbatim>\<open>0x\<close> prefix never occur there and are not modelled.
\<close>

definition is_digit :: "char \<Rightarrow> bool" where
  "is_digit c = (c \<in> set ''0123456789'')"

definition digit_value :: "char \<Rightarrow> nat" where
  "digit_value c = of_char c - 48"

definition parseInt :: "string \<Rightarrow> int option" where
  "parseInt s =
     (let ds = takeWhile is_digit s
      in if ds = [] then None
         else Some (int (foldl (\<lambda>acc c. acc * 10 + digit_value c) 0 ds)))"

section \<open>Gateway state\<close>

type_synonym socket = nat
type_synonym timestamp = nat

text \<open>
  A record of \<^verbatim>\<open>shadesDB.shades\<close>. The object is created with \<^verbatim>\<open>chipID\<close>,
  \<^verbatim>\<open>name\<close> and \<^verbatim>\<open>firstSeen\<close>; the other properties are \<^verbatim>\<open>undefined\<close> (\<open>None\<close>, and
  \<open>False\<close> for the flag) until the lines that follow assign them.
\<close>

record shade =
  chipID :: string
  name :: string
  firstSeen :: timestamp
  lastSeen :: "timestamp option"
  online :: bool
  model :: "string option"
  firmware :: "int option"
  rawPosition :: "int option"
  currentPosition :: "number option"

text \<open>
  The status object of a device, as \<^verbatim>\<open>JSON.parse\<close> returns it, with the fields the
  handler reads. The device protocol sends an integer \<^verbatim>\<open>chipID\<close>, \<^verbatim>\<open>position\<close> and
  \<^verbatim>\<open>version\<close> and a string \<^verbatim>\<open>model\<close>; a field that is absent is \<open>None\<close>. A value
  that is no object but not \<^verbatim>\<open>null\<close> has no field at all.
\<close>

record status_data =
  data_chipID :: "int option"
  data_model :: "string option"
  data_version :: "int option"
  data_position :: "int option"

text \<open>
  What \<^verbatim>\<open>JSON.parse(message)\<close> does: it throws, or returns \<^verbatim>\<open>null\<close> (whose property
  read throws a \<open>TypeError\<close>), or returns a value whose properties can be read.
\<close>

datatype json_result = Throws | Null | Data status_data

text \<open>
  The command object \<^verbatim>\<open>{ chipID: parseInt(chipID), command: command }\<close>, and the
  bytes of its \<^verbatim>\<open>JSON.stringify\<close>: the two members in this order, without white
  space. \<^verbatim>\<open>chipID\<close> is the result of \<^verbatim>\<open>parseInt\<close> (\<open>None\<close> is \<^verbatim>\<open>NaN\<close>);
  \<^verbatim>\<open>command\<close> is a number, which the handlers take from \<^verbatim>\<open>Math.round\<close> or from
  an integer of the request body. An integer is written with its decimal digits (as
  by \<^verbatim>\<open>String\<close>, below \<open>10 ^ 21\<close>), \<^verbatim>\<open>NaN\<close> and the infinities are written
  \<^verbatim>\<open>null\<close>.
\<close>

record command_data =
  command_chipID :: "int option"
  command_value :: number

definition JSON_number :: "number \<Rightarrow> string" where
  "JSON_number a = (case a of Finite x \<Rightarrow> String_of_number \<lfloor>x\<rfloor> | _ \<Rightarrow> ''null'')"

definition DQ :: char where
  "DQ = CHR 0x22"

definition bytes_of_string :: "string \<Rightarrow> bytes" where
  "bytes_of_string s = map of_char s"

definition JSON_stringify :: "command_data \<Rightarrow> string" where
  "JSON_stringify data =
     ''{'' @ [DQ] @ ''chipID'' @ [DQ] @ '':''
       @ (case command_chipID data of None \<Rightarrow> ''null'' | Some n \<Rightarrow> String_of_number n)
       @ '','' @ [DQ] @ ''command'' @ [DQ] @ '':'' @ JSON_number (command_value data) @ ''}''"

text \<open>
  What the handlers do to the outside: writes to a socket, the snapshot handed to
  \<^verbatim>\<open>saveData\<close>, and the calls of the two MQTT publishers (which return at once when
  no broker is connected).
\<close>

datatype effect =
    SocketWrite socket bytes
  | SocketWriteText socket string
  | SocketDestroy socket
  | SocketEnd socket
  | SaveData "(string \<times> shade) list"
  | PublishShadeDiscovery string shade
  | PublishShadeState string "int option" bool
  | UncaughtException js_error

text \<open>
  The library functions and the clock the handlers call. \<open>Date_now k\<close> is what the
  \<open>k\<close>-th evaluation of \<^verbatim>\<open>new Date().toISOString()\<close> returns; \<open>sha1\<close> and
  \<open>base64\<close> are those of \<^verbatim>\<open>crypto\<close>.
\<close>

record env =
  JSON_parse :: "bytes \<Rightarrow> json_result"
  Date_now :: "nat \<Rightarrow> timestamp"
  sha1 :: "string \<Rightarrow> bytes"
  base64 :: "bytes \<Rightarrow> string"

text \<open>
  The state of the process: the map \<^verbatim>\<open>connectedShades\<close>, the object
  \<^verbatim>\<open>shadesDB.shades\<close> (both in insertion order), and for every socket the two
  variables \<^verbatim>\<open>shadeChipID\<close> and \<^verbatim>\<open>buffer\<close> of its upgrade handler's closure.
  \<open>upgraded\<close> are the sockets whose handshake registered the handlers, \<open>destroyed\<close>
  those with \<^verbatim>\<open>socket.destroyed\<close> set, \<open>clock\<close> counts the clock reads, and
  \<open>effects\<close> is the trace of what was done to the outside.
\<close>

record gateway =
  connectedShades :: "(string \<times> socket) list"
  shadesDB :: "(string \<times> shade) list"
  shadeChipID :: "socket \<Rightarrow> string option"
  buffers :: "socket \<Rightarrow> bytes"
  upgraded :: "socket set"
  destroyed :: "socket set"
  clock :: nat
  effects :: "effect list"

definition emit :: "effect \<Rightarrow> gateway \<Rightarrow> gateway" where
  "emit e st = st\<lparr>effects := effects st @ [e]\<rparr>"

text \<open>\<^verbatim>\<open>loadData\<close>, lines 185-194: a missing or unreadable file leaves the empty store.\<close>

definition loadData :: "(string \<times> shade) list option \<Rightarrow> gateway \<Rightarrow> gateway" where
  "loadData file st = (case file of None \<Rightarrow> st | Some db \<Rightarrow> st\<lparr>shadesDB := db\<rparr>)"

text \<open>The state when the module has been loaded: line 183, 204 and 209.\<close>

definition startup :: "(string \<times> shade) list option \<Rightarrow> gateway" where
  "startup file =
     loadData file
       \<lparr>connectedShades = [], shadesDB = [], shadeChipID = (\<lambda>_. None), buffers = (\<lambda>_. []),
        upgraded = {}, destroyed = {}, clock = 0, effects = []\<rparr>"

text \<open>\<^verbatim>\<open>saveData\<close>, lines 196-202: a failed write is logged and changes nothing else.\<close>

definition saveData :: "gateway \<Rightarrow> gateway" where
  "saveData st = emit (SaveData (shadesDB st)) st"

definition new_Date :: "env \<Rightarrow> gateway \<Rightarrow> timestamp \<times> gateway" where
  "new_Date E st = (Date_now E (clock st), st\<lparr>clock := Suc (clock st)\<rparr>)"

text \<open>\<^verbatim>\<open>sendWebSocketFrame\<close>, lines 251-276, and \<^verbatim>\<open>sendToShade\<close>, lines 278-282.\<close>

definition sendWebSocketFrame :: "socket \<Rightarrow> bytes \<Rightarrow> byte \<Rightarrow> gateway \<Rightarrow> gateway" where
  "sendWebSocketFrame socket data opc st =
     (if socket \<in> destroyed st then st
      else emit (SocketWrite socket (frame_of data opc)) st)"

definition sendToShade :: "socket \<Rightarrow> command_data \<Rightarrow> gateway \<Rightarrow> gateway" where
  "sendToShade socket data st =
     sendWebSocketFrame socket (bytes_of_string (JSON_stringify data)) 0x1 st"

section \<open>Upgrade handler\<close>

definition WS_GUID :: string where
  "WS_GUID = ''258EAFA5-E914-47DA-95CA-C5AB0DC85B11''"

definition CRLF :: string where
  "CRLF = [CHR 0x0D, CHR 0x0A]"

text \<open>\<^verbatim>\<open>lines.join('\r\n')\<close>.\<close>

fun join_CRLF :: "string list \<Rightarrow> string" where
  "join_CRLF [] = []"
| "join_CRLF [l] = l"
| "join_CRLF (l # ls) = l @ CRLF @ join_CRLF ls"

text \<open>
  The handshake, lines 416-440. A header that is absent is \<open>None\<close>; \<^verbatim>\<open>!key\<close> holds
  for an absent and for an empty header.
\<close>

definition truthy_string :: "string option \<Rightarrow> bool" where
  "truthy_string v = (case v of None \<Rightarrow> False | Some s \<Rightarrow> s \<noteq> [])"

definition on_upgrade :: "env \<Rightarrow> socket \<Rightarrow> string option \<Rightarrow> string option \<Rightarrow> gateway \<Rightarrow> gateway" where
  "on_upgrade E socket key protocol st =
     (if \<not> truthy_string key then
        emit (SocketDestroy socket) (st\<lparr>destroyed := insert socket (destroyed st)\<rparr>)
      else
        let acceptKey = base64 E (sha1 E (the key @ WS_GUID));
            responseHeaders =
              [''HTTP/1.1 101 Switching Protocols'',
               ''Upgrade: websocket'',
               ''Connection: Upgrade'',
               ''Sec-WebSocket-Accept: '' @ acceptKey];
            responseHeaders =
              (if truthy_string protocol
               then responseHeaders @ [''Sec-WebSocket-Protocol: '' @ the protocol]
               else responseHeaders);
            st = emit (SocketWriteText socket (join_CRLF responseHeaders @ CRLF @ CRLF)) st
        in st\<lparr>shadeChipID := (shadeChipID st)(socket := None),
               buffers := (buffers st)(socket := []),
               upgraded := insert socket (upgraded st)\<rparr>)"

section \<open>Status messages\<close>

text \<open>\<^verbatim>\<open>if (data.chipID)\<close>: an absent field and the number 0 are falsy.\<close>

definition truthy_number :: "int option \<Rightarrow> bool" where
  "truthy_number v = (case v of None \<Rightarrow> False | Some n \<Rightarrow> n \<noteq> 0)"

text \<open>
  The block guarded by \<^verbatim>\<open>if (data.chipID)\<close>, lines 469-495. The clock is read once
  when the record is created (line 478) and once more for \<^verbatim>\<open>lastSeen\<close> (line 483).
\<close>

definition ingest :: "env \<Rightarrow> socket \<Rightarrow> status_data \<Rightarrow> gateway \<Rightarrow> gateway" where
  "ingest E socket data st =
     (let chipID = String_of_number (the (data_chipID data));
          st = st\<lparr>shadeChipID := (shadeChipID st)(socket := Some chipID)\<rparr>;
          st = st\<lparr>connectedShades := AList.update chipID socket (connectedShades st)\<rparr>;
          st = (if map_of (shadesDB st) chipID = None then
                  let (now, st) = new_Date E st
                  in st\<lparr>shadesDB := AList.update chipID
                         \<lparr>chipID = chipID, name = ''LinkShade '' @ chipID, firstSeen = now,
                          lastSeen = None, online = False, model = None, firmware = None,
                          rawPosition = None, currentPosition = None\<rparr> (shadesDB st)\<rparr>
                else st);
          shade = the (map_of (shadesDB st) chipID);
          (now, st) = new_Date E st;
          shade = shade\<lparr>lastSeen := Some now, online := True, model := data_model data,
                         firmware := data_version data, rawPosition := data_position data,
                         currentPosition := Some (positionToPercent (data_position data))\<rparr>;
          st = st\<lparr>shadesDB := AList.update chipID shade (shadesDB st)\<rparr>;
          st = saveData st;
          st = emit (PublishShadeDiscovery chipID shade) st
      in emit (PublishShadeState chipID (data_position data) True) st)"

text \<open>
  The text and binary branch, lines 461-500: an exception of \<^verbatim>\<open>JSON.parse\<close> or of the
  property read is caught and logged.
\<close>

definition on_message :: "env \<Rightarrow> socket \<Rightarrow> bytes \<Rightarrow> gateway \<Rightarrow> gateway" where
  "on_message E socket message st =
     (case JSON_parse E message of
        Throws \<Rightarrow> st
      | Null \<Rightarrow> st
      | Data data \<Rightarrow> if truthy_number (data_chipID data) then ingest E socket data st else st)"

text \<open>
  One pass of the body of the read loop behind \<^verbatim>\<open>buffer.slice\<close>, lines 451-500. The
  flag tells whether the loop goes on: a close frame ends the socket and returns.
\<close>

definition handle_frame :: "env \<Rightarrow> socket \<Rightarrow> frame \<Rightarrow> gateway \<Rightarrow> bool \<times> gateway" where
  "handle_frame E socket frame st =
     (if opcode frame = 0x8 then (False, emit (SocketEnd socket) st)
      else if opcode frame = 0x9 then (True, sendWebSocketFrame socket (payload frame) 0xA st)
      else if opcode frame = 0xA then (True, st)
      else if opcode frame = 0x1 \<or> opcode frame = 0x2
           then (True, on_message E socket (payload frame) st)
      else (True, st))"

section \<open>Read loop\<close>

text \<open>
  A frame that \<^verbatim>\<open>parseWebSocketFrame\<close> returns spans at least its two header bytes
  and lies inside the buffer: the loop below shortens the buffer in every pass.
\<close>

lemma read_payloadLength_offset:
  "read_payloadLength buf b = Inr (Some (n, off)) \<Longrightarrow> 2 \<le> off"
  by (auto simp: read_payloadLength_def Let_def split: if_splits sum.splits)

lemma parseWebSocketFrame_totalLength:
  assumes "parseWebSocketFrame buf = Inr (Some f)"
  shows "2 \<le> totalLength f \<and> totalLength f \<le> length buf"
proof (cases "read_payloadLength buf (buf ! 1)")
  case (Inl e)
  with assms show ?thesis
    by (simp add: parseWebSocketFrame_def Let_def split: if_splits)
next
  case (Inr r)
  show ?thesis
  proof (cases r)
    case None
    with Inr assms show ?thesis
      by (simp add: parseWebSocketFrame_def Let_def split: if_splits)
  next
    case (Some p)
    obtain n off where p: "p = (n, off)" by (cases p)
    have "2 \<le> off" using Inr Some p read_payloadLength_offset by blast
    with Inr Some p assms show ?thesis
      by (simp add: parseWebSocketFrame_def Let_def split: if_splits) auto
  qed
qed

text \<open>
  The loop \<^verbatim>\<open>while (buffer.length >= 2)\<close> of the data handler, lines 445-501, on the
  local buffer. An exception of the parser would leave the handler uncaught.
\<close>

function data_loop :: "env \<Rightarrow> socket \<Rightarrow> bytes \<Rightarrow> gateway \<Rightarrow> bytes \<times> gateway" where
  "data_loop E socket buf st =
     (if 2 \<le> length buf then
        (case parseWebSocketFrame buf of
           Inl e \<Rightarrow> (buf, emit (UncaughtException e) st)
         | Inr None \<Rightarrow> (buf, st)
         | Inr (Some frame) \<Rightarrow>
             let buf' = drop (totalLength frame) buf;
                 (continue, st') = handle_frame E socket frame st
             in if continue then data_loop E socket buf' st' else (buf', st'))
      else (buf, st))"
  by pat_completeness auto
termination
proof (relation "measure (\<lambda>(E, socket, buf, st). length buf)")
  show "wf (measure (\<lambda>(E, socket, buf, st). length buf))" by simp
next
  fix E :: env and socket :: socket and buf :: bytes and st :: gateway
    and b :: "frame option" and frame :: frame and buf' x y
  assume "2 \<le> length buf" and "parseWebSocketFrame buf = Inr b" and "b = Some frame"
    and "buf' = drop (totalLength frame) buf"
  then have "2 \<le> totalLength frame" using parseWebSocketFrame_totalLength by blast
  with \<open>2 \<le> length buf\<close> \<open>buf' = drop (totalLength frame) buf\<close>
  show "((E, socket, buf', y), E, socket, buf, st) \<in> measure (\<lambda>(E, socket, buf, st). length buf)"
    by simp
qed

declare data_loop.simps [simp del]

text \<open>
  The data handler, lines 442-502: \<^verbatim>\<open>buffer = Buffer.concat([buffer, data])\<close>, then
  the loop. The handler exists only for a socket whose handshake succeeded.
\<close>

definition on_data :: "env \<Rightarrow> socket \<Rightarrow> bytes \<Rightarrow> gateway \<Rightarrow> gateway" where
  "on_data E socket data st =
     (if socket \<notin> upgraded st then st
      else
        let (buf, st) = data_loop E socket (buffers st socket @ data) st
        in st\<lparr>buffers := (buffers st)(socket := buf)\<rparr>)"

text \<open>
  The close handler, lines 504-514. Node sets \<^verbatim>\<open>socket.destroyed\<close> before it emits
  the event. \<^verbatim>\<open>if (shadeChipID)\<close> holds for a string that is not empty.
\<close>

definition on_close :: "socket \<Rightarrow> gateway \<Rightarrow> gateway" where
  "on_close socket st =
     (let st = st\<lparr>destroyed := insert socket (destroyed st)\<rparr>
      in if socket \<notin> upgraded st then st
         else if \<not> truthy_string (shadeChipID st socket) then st
         else
           let cid = the (shadeChipID st socket);
               st = st\<lparr>connectedShades := AList.delete cid (connectedShades st)\<rparr>;
               st = (case map_of (shadesDB st) cid of
                       None \<Rightarrow> st
                     | Some shade \<Rightarrow>
                         saveData (st\<lparr>shadesDB :=
                           AList.update cid (shade\<lparr>online := False\<rparr>) (shadesDB st)\<rparr>))
           in emit (PublishShadeState cid (Some 0) False) st)"

section \<open>HTTP API\<close>

text \<open>
  The request body after \<^verbatim>\<open>JSON.parse\<close> and the destructuring of its one field:
  \<open>Unparsable\<close> when either throws (the \<^verbatim>\<open>catch\<close> answers 400).
\<close>

datatype 'a body = Unparsable | Body 'a

text \<open>The answers: status 200 with one of three objects, or status 400.\<close>

datatype response =
    Sent_position string int number
  | Sent_command string int
  | Offline string
  | Bad_request

text \<open>
  \<^verbatim>\<open>POST /api/shades/{chipID}/position\<close>, lines 325-350, and
  \<^verbatim>\<open>POST /api/shades/{chipID}/command\<close>, lines 353-377. \<open>cid\<close> is the string the
  URL pattern \<^verbatim>\<open>(\d+)\<close> captured.
\<close>

definition api_position ::
  "config \<Rightarrow> string \<Rightarrow> int body \<Rightarrow> gateway \<Rightarrow> response \<times> gateway" where
  "api_position CONFIG cid b st =
     (case b of
        Unparsable \<Rightarrow> (Bad_request, st)
      | Body position \<Rightarrow>
          let command = percentToCommand CONFIG position
          in case map_of (connectedShades st) cid of
               Some ws \<Rightarrow>
                 (Sent_position cid position command,
                  sendToShade ws \<lparr>command_chipID = parseInt cid, command_value = command\<rparr> st)
             | None \<Rightarrow> (Offline cid, st))"

definition api_command ::
  "string \<Rightarrow> int body \<Rightarrow> gateway \<Rightarrow> response \<times> gateway" where
  "api_command cid b st =
     (case b of
        Unparsable \<Rightarrow> (Bad_request, st)
      | Body command \<Rightarrow>
          (case map_of (connectedShades st) cid of
             Some ws \<Rightarrow>
               (Sent_command cid command,
                sendToShade ws \<lparr>command_chipID = parseInt cid,
                                command_value = Number_of_int command\<rparr> st)
           | None \<Rightarrow> (Offline cid, st)))"

text \<open>
  \<^verbatim>\<open>GET /api/shades\<close>, lines 314-322: every record, with \<^verbatim>\<open>online\<close> computed from
  the map. \<^verbatim>\<open>GET /api/health\<close>, lines 302-311: the two counts.
\<close>

definition api_shades :: "gateway \<Rightarrow> shade list" where
  "api_shades st =
     map (\<lambda>s. s\<lparr>online := (map_of (connectedShades st) (chipID s) \<noteq> None)\<rparr>)
       (map snd (shadesDB st))"

definition api_health :: "gateway \<Rightarrow> nat \<times> nat" where
  "api_health st = (length (connectedShades st), length (shadesDB st))"

section \<open>Runs of the gateway\<close>

text \<open>
  The events the process reacts to, and the state after a sequence of them. The test
  endpoint (lines 380-402) and the MQTT command handler (lines 81-97) do nothing but
  send one text frame to the socket that the map holds for an identity: they are the
  event \<open>Ev_send\<close>, for any socket and any payload. The health, list and dashboard
  requests change nothing.
\<close>

datatype event =
    Ev_upgrade socket "string option" "string option"
  | Ev_data socket bytes
  | Ev_close socket
  | Ev_position string "int body"
  | Ev_command string "int body"
  | Ev_send socket bytes

definition step :: "config \<Rightarrow> env \<Rightarrow> event \<Rightarrow> gateway \<Rightarrow> gateway" where
  "step CONFIG E ev st =
     (case ev of
        Ev_upgrade socket key protocol \<Rightarrow> on_upgrade E socket key protocol st
      | Ev_data socket d \<Rightarrow> on_data E socket d st
      | Ev_close socket \<Rightarrow> on_close socket st
      | Ev_position cid b \<Rightarrow> snd (api_position CONFIG cid b st)
      | Ev_command cid b \<Rightarrow> snd (api_command cid b st)
      | Ev_send ws json \<Rightarrow> sendWebSocketFrame ws json 0x1 st)"

fun run :: "config \<Rightarrow> env \<Rightarrow> event list \<Rightarrow> gateway \<Rightarrow> gateway" where
  "run CONFIG E [] st = st"
| "run CONFIG E (ev # evs) st = run CONFIG E evs (step CONFIG E ev st)"

text \<open>
  The stored \<^verbatim>\<open>online\<close> flag of every record agrees with the map
  \<^verbatim>\<open>connectedShades\<close>.
\<close>

definition online_consistent :: "gateway \<Rightarrow> bool" where
  "online_consistent st =
     list_all (\<lambda>(k, s). online s = (map_of (connectedShades st) k \<noteq> None)) (shadesDB st)"

section \<open>Frames as the protocol describes them\<close>

text \<open>
  The three encodings of the payload length, and the bytes of one frame: a first byte,
  the second byte with the mask bit and the 7-bit length (or 126, 127), the extended
  length, the mask key when there is one, and the payload as it is on the wire.
\<close>

datatype length_encoding = Len7 | Len16 | Len64

definition header_size :: "length_encoding \<Rightarrow> nat" where
  "header_size enc = (case enc of Len7 \<Rightarrow> 2 | Len16 \<Rightarrow> 4 | Len64 \<Rightarrow> 10)"

definition wire_frame :: "byte \<Rightarrow> length_encoding \<Rightarrow> bytes option \<Rightarrow> bytes \<Rightarrow> bytes" where
  "wire_frame b0 enc mask_key wire =
     (let len7 = (case enc of Len7 \<Rightarrow> length wire | Len16 \<Rightarrow> 126 | Len64 \<Rightarrow> 127);
          ext = (case enc of Len7 \<Rightarrow> [] | Len16 \<Rightarrow> writeUIntBE 2 (length wire)
                 | Len64 \<Rightarrow> writeUIntBE 8 (length wire));
          b1 = (case mask_key of None \<Rightarrow> of_nat len7 | Some k \<Rightarrow> of_nat (128 + len7))
      in b0 # b1 # ext @ (case mask_key of None \<Rightarrow> [] | Some k \<Rightarrow> k) @ wire)"

definition well_formed :: "length_encoding \<Rightarrow> bytes option \<Rightarrow> bytes \<Rightarrow> bool" where
  "well_formed enc mask_key wire =
     ((case enc of Len7 \<Rightarrow> length wire < 126 | Len16 \<Rightarrow> length wire < 2 ^ 16
       | Len64 \<Rightarrow> length wire < 2 ^ 64)
      \<and> (case mask_key of None \<Rightarrow> True | Some k \<Rightarrow> length k = 4))"

text \<open>The mask key applied to a payload: byte \<open>i\<close> is combined with key byte \<open>i mod 4\<close>.\<close>

definition xor_mask :: "bytes \<Rightarrow> bytes \<Rightarrow> bytes" where
  "xor_mask k bs = map (\<lambda>i. (bs ! i) XOR (k ! (i mod 4))) [0..<length bs]"

section \<open>An environment and a status message for the examples\<close>

text \<open>
  The status message \<^verbatim>\<open>{"chipID":42,"position":850,"model":"wired","version":24}\<close>
  and the object \<^verbatim>\<open>JSON.parse\<close> returns for it, and the message \<^verbatim>\<open>{"chipID":0}\<close>.
\<close>

definition status_42_text :: string where
  "status_42_text =
     ''{'' @ [DQ] @ ''chipID'' @ [DQ] @ '':42,'' @ [DQ] @ ''position'' @ [DQ] @ '':850,''
       @ [DQ] @ ''model'' @ [DQ] @ '':'' @ [DQ] @ ''wired'' @ [DQ] @ '',''
       @ [DQ] @ ''version'' @ [DQ] @ '':24}''"

definition chipID_0_text :: string where
  "chipID_0_text = ''{'' @ [DQ] @ ''chipID'' @ [DQ] @ '':0}''"

definition status_42 :: status_data where
  "status_42 =
     \<lparr>data_chipID = Some 42, data_model = Some ''wired'', data_version = Some 24,
      data_position = Some 850\<rparr>"

text \<open>
  An environment for the examples. Its \<^verbatim>\<open>JSON.parse\<close> knows the two messages
  above and the empty object, and throws for every other text;
  its clock advances by one millisecond with every read; its digest is the one of the
  handshake example of RFC 6455.
\<close>

definition example_env :: env where
  "example_env =
     \<lparr>JSON_parse = (\<lambda>bs.
        if bs = bytes_of_string status_42_text then Data status_42
        else if bs = bytes_of_string ''{}'' then
          Data \<lparr>data_chipID = None, data_model = None, data_version = None, data_position = None\<rparr>
        else if bs = bytes_of_string chipID_0_text then
          Data \<lparr>data_chipID = Some 0, data_model = None, data_version = None, data_position = None\<rparr>
        else Throws),
      Date_now = (\<lambda>k. 1700000000000 + k),
      sha1 = (\<lambda>s.
        if s = ''dGhlIHNhbXBsZSBub25jZQ=='' @ WS_GUID
        then [0xb3, 0x7a, 0x4f, 0x2c, 0xc0, 0x62, 0x4f, 0x16, 0x90, 0xf6,
              0x46, 0x06, 0xcf, 0x38, 0x59, 0x45, 0xb2, 0xbe, 0xc4, 0xea]
        else []),
      base64 = (\<lambda>bs.
        if bs = [0xb3, 0x7a, 0x4f, 0x2c, 0xc0, 0x62, 0x4f, 0x16, 0x90, 0xf6,
                 0x46, 0x06, 0xcf, 0x38, 0x59, 0x45, 0xb2, 0xbe, 0xc4, 0xea]
        then ''s3pPLMBiTxaQ9kYGzzhZRbK+xOo='' else [])\<rparr>"

section \<open>Descriptions used in the statements\<close>

text \<open>
  The record a status message leaves behind: the object created at line 475, and the
  assignments of lines 483-488 applied to a record.
\<close>

definition created :: "string \<Rightarrow> timestamp \<Rightarrow> shade" where
  "created cid t =
     \<lparr>chipID = cid, name = ''LinkShade '' @ cid, firstSeen = t, lastSeen = None, online = False,
      model = None, firmware = None, rawPosition = None, currentPosition = None\<rparr>"

definition ingested :: "status_data \<Rightarrow> timestamp \<Rightarrow> shade \<Rightarrow> shade" where
  "ingested d t s =
     s\<lparr>lastSeen := Some t, online := True, model := data_model d, firmware := data_version d,
       rawPosition := data_position d,
       currentPosition := Some (positionToPercent (data_position d))\<rparr>"

text \<open>An unmasked text frame with a short payload, and the key of RFC 6455's example.\<close>

definition text_frame :: "string \<Rightarrow> bytes" where
  "text_frame s = [0x81, of_nat (length s)] @ bytes_of_string s"

definition example_key :: string where
  "example_key = ''dGhlIHNhbXBsZSBub25jZQ==''"

text \<open>
  The record of identity 42 after the status message above, and three states of a run
  from the empty store: socket 7 has completed the handshake; it has then sent the
  status message; socket 8 has then completed the handshake and sent the same message.
\<close>

definition record_42 :: "timestamp \<Rightarrow> timestamp \<Rightarrow> shade" where
  "record_42 t1 t2 =
     \<lparr>chipID = ''42'', name = ''LinkShade 42'', firstSeen = t1, lastSeen = Some t2,
      online = True, model = Some ''wired'', firmware = Some 24, rawPosition = Some 850,
      currentPosition = Some (Finite 85)\<rparr>"

definition example_upgraded :: gateway where
  "example_upgraded = on_upgrade example_env 7 (Some example_key) None (startup None)"

definition example_connected :: gateway where
  "example_connected = on_data example_env 7 (text_frame status_42_text) example_upgraded"

definition example_rebound :: gateway where
  "example_rebound =
     on_data example_env 8 (text_frame status_42_text)
       (on_upgrade example_env 8 (Some example_key) None example_connected)"

text \<open>
  The record store has one record for a key, and the stored flags agree with the map.
\<close>

definition store_inv :: "gateway \<Rightarrow> bool" where
  "store_inv st = (distinct (map fst (shadesDB st)) \<and> online_consistent st)"

text \<open>
  The payload length the parser computes from a length field that holds \<open>n\<close>: the
  64-bit field goes through \<^verbatim>\<open>Number\<close>.
\<close>

definition declared_length :: "length_encoding \<Rightarrow> nat \<Rightarrow> nat" where
  "declared_length enc n = (case enc of Len64 \<Rightarrow> Number_of_BigInt n | _ \<Rightarrow> n)"

section \<open>Rounding to a double\<close>

lemma ilog2_lower:
  assumes "x \<noteq> 0"
  shows "2 powi (ilog2 x) \<le> \<bar>x\<bar>"
proof (cases "1 \<le> \<bar>x\<bar>")
  case True
  define N where "N = nat \<lfloor>\<bar>x\<bar>\<rfloor>"
  define L where "L = floorlog 2 N"
  have N: "0 < N" using True by (simp add: N_def)
  from floorlog_bounds [OF N, of 2] have b: "2 ^ (L - 1) \<le> N" "N < 2 ^ L"
    by (simp_all add: L_def)
  have L: "1 \<le> L" using b N by (cases L) auto
  have e: "ilog2 x = int (L - 1)" using True L by (simp add: ilog2_def N_def L_def)
  have "(2 :: rat) ^ (L - 1) \<le> of_nat N"
    using b(1) by (metis of_nat_le_iff of_nat_numeral of_nat_power)
  also have "(of_nat N :: rat) \<le> \<bar>x\<bar>" using True by (simp add: N_def)
  finally show ?thesis by (simp add: e)
next
  case False
  define u where "u = 1 / \<bar>x\<bar>"
  define M where "M = nat (\<lceil>u\<rceil> - 1)"
  define c where "c = floorlog 2 M"
  have u: "1 < u" using False assms by (simp add: u_def)
  then have M: "0 < M" by (simp add: M_def less_ceiling_iff)
  from floorlog_bounds [OF M, of 2] have b: "2 ^ (c - 1) \<le> M" "M < 2 ^ c"
    by (simp_all add: c_def)
  have e: "ilog2 x = - int c" using False by (simp add: ilog2_def M_def c_def u_def)
  have "int M + 1 \<le> 2 ^ c" using b(2) by (metis add.commute of_nat_Suc of_nat_le_iff Suc_leI of_nat_numeral of_nat_power)
  moreover have "\<lceil>u\<rceil> = int M + 1" using M by (simp add: M_def)
  ultimately have "\<lceil>u\<rceil> \<le> 2 ^ c" by simp
  then have "u \<le> 2 ^ c" by (metis ceiling_le_iff of_int_numeral of_int_power)
  then have "1 / 2 ^ c \<le> \<bar>x\<bar>" using assms by (simp add: u_def field_simps)
  then show ?thesis by (simp add: e power_int_minus_divide)
qed

lemma ilog2_upper:
  assumes "x \<noteq> 0"
  shows "\<bar>x\<bar> < 2 powi (ilog2 x + 1)"
proof (cases "1 \<le> \<bar>x\<bar>")
  case True
  define N where "N = nat \<lfloor>\<bar>x\<bar>\<rfloor>"
  define L where "L = floorlog 2 N"
  have N: "0 < N" using True by (simp add: N_def)
  from floorlog_bounds [OF N, of 2] have b: "2 ^ (L - 1) \<le> N" "N < 2 ^ L"
    by (simp_all add: L_def)
  have e: "ilog2 x + 1 = int L" using True by (simp add: ilog2_def N_def L_def)
  have "int N + 1 \<le> 2 ^ L" using b(2) by (metis add.commute of_nat_Suc of_nat_le_iff Suc_leI of_nat_numeral of_nat_power)
  moreover have "\<lfloor>\<bar>x\<bar>\<rfloor> = int N" using True by (simp add: N_def)
  ultimately have "\<lfloor>\<bar>x\<bar>\<rfloor> + 1 \<le> 2 ^ L" by simp
  then have "\<bar>x\<bar> < 2 ^ L" by (metis floor_less_iff zle_add1_eq_le of_int_numeral of_int_power less_floor_iff not_less)
  then show ?thesis by (simp add: e)
next
  case False
  define u where "u = 1 / \<bar>x\<bar>"
  define M where "M = nat (\<lceil>u\<rceil> - 1)"
  define c where "c = floorlog 2 M"
  have u: "1 < u" using False assms by (simp add: u_def)
  then have M: "0 < M" by (simp add: M_def less_ceiling_iff)
  from floorlog_bounds [OF M, of 2] have b: "2 ^ (c - 1) \<le> M" "M < 2 ^ c"
    by (simp_all add: c_def)
  have c: "1 \<le> c" using b M by (cases c) auto
  have e: "ilog2 x + 1 = - int (c - 1)" using False c by (simp add: ilog2_def M_def c_def u_def)
  have "int M = \<lceil>u\<rceil> - 1" using M by (simp add: M_def)
  moreover have "of_int (\<lceil>u\<rceil> - 1) < u" by (simp add: ceiling_correct)
  ultimately have m: "of_nat M < u" by (metis of_int_of_nat_eq)
  have "(2 :: rat) ^ (c - 1) \<le> of_nat M"
    using b(1) by (metis of_nat_le_iff of_nat_numeral of_nat_power)
  also note m
  finally have "2 ^ (c - 1) < u" .
  then have "\<bar>x\<bar> < 1 / 2 ^ (c - 1)" using assms by (simp add: u_def field_simps)
  then show ?thesis by (simp only: e power_int_minus_divide power_int_of_nat)
qed


lemma ilog2_less:
  assumes "x \<noteq> 0" and "\<bar>x\<bar> < 2 powi n"
  shows "ilog2 x < n"
proof (rule ccontr)
  assume "\<not> ilog2 x < n"
  then have "n \<le> ilog2 x" by simp
  then have "(2 :: rat) powi n \<le> 2 powi ilog2 x" by (rule power_int_increasing) simp
  with ilog2_lower [OF assms(1)] assms(2) show False by simp
qed

lemma roundTiesToEven_error: "\<bar>of_int (roundTiesToEven t) - t\<bar> \<le> 1 / 2"
proof -
  define n where "n = \<lfloor>t\<rfloor>"
  define d where "d = t - of_int n"
  have d: "0 \<le> d" "d < 1" unfolding d_def n_def by linarith+
  have t: "t = of_int n + d" by (simp add: d_def)
  show ?thesis
    unfolding roundTiesToEven_def Let_def n_def [symmetric] d_def [symmetric]
    using d by (auto simp: abs_if t)
qed

lemma roundTiesToEven_of_int: "roundTiesToEven (of_int n) = n"
  by (simp add: roundTiesToEven_def)

lemma nearest_double_error:
  assumes "\<bar>x\<bar> < 2 ^ n" and "n \<le> 1000"
  shows "\<exists>y. nearest_double x = Finite y \<and> \<bar>y - x\<bar> \<le> 2 powi (int n - 54)"
proof (cases "x = 0")
  case True
  then show ?thesis by (simp add: nearest_double_def)
next
  case False
  define e where "e = max (ilog2 x) (- 1022)"
  define q where "q = (2 :: rat) powi (e - 52)"
  define y where "y = of_int (roundTiesToEven (x / q)) * q"
  have q0: "0 < q" by (simp add: q_def)
  have "ilog2 x < int n" using ilog2_less [OF False, of "int n"] assms(1) by simp
  then have e: "e - 52 \<le> int n - 53" by (simp add: e_def)
  have q: "q \<le> 2 powi (int n - 53)"
    unfolding q_def using e by (rule power_int_increasing) simp
  have "y - x = (of_int (roundTiesToEven (x / q)) - x / q) * q"
    using q0 by (simp add: y_def field_simps)
  then have "\<bar>y - x\<bar> = \<bar>of_int (roundTiesToEven (x / q)) - x / q\<bar> * q"
    using q0 by (simp add: abs_mult)
  also have "\<dots> \<le> 1 / 2 * q"
    using q0 by (intro mult_right_mono roundTiesToEven_error) simp
  also have "\<dots> \<le> 1 / 2 * 2 powi (int n - 53)" using q by simp
  also have "\<dots> = 2 powi (int n - 54)"
    using power_int_add [of "2 :: rat" "int n - 54" 1] by simp
  finally have err: "\<bar>y - x\<bar> \<le> 2 powi (int n - 54)" .
  have "(2 :: rat) powi (int n - 54) \<le> 2 powi 1000"
    by (rule power_int_increasing) (use assms(2) in simp_all)
  moreover have "(2 :: rat) ^ n \<le> 2 ^ 1000"
    by (rule power_increasing) (use assms(2) in simp_all)
  ultimately have "\<bar>y\<bar> < 2 ^ 1000 + 2 ^ 1000" using err assms(1) by simp
  also have "\<dots> \<le> (2 :: rat) ^ 1024" by simp
  finally have "\<not> 2 ^ 1024 \<le> \<bar>y\<bar>" by simp
  then have "nearest_double x = Finite y"
    using False by (simp add: nearest_double_def Let_def e_def q_def y_def)
  with err show ?thesis by blast
qed

lemma nearest_double_exact:
  assumes x: "x = of_int m * 2 powi k" and m: "\<bar>m\<bar> < 2 ^ 53"
    and k: "- 1074 \<le> k" and fin: "\<bar>x\<bar> < 2 ^ 1024"
  shows "nearest_double x = Finite x"
proof (cases "x = 0")
  case True
  then show ?thesis by (simp add: nearest_double_def)
next
  case False
  define e where "e = max (ilog2 x) (- 1022)"
  define q where "q = (2 :: rat) powi (e - 52)"
  define j where "j = nat (k - (e - 52))"
  have "\<bar>x\<bar> = of_int \<bar>m\<bar> * 2 powi k" by (simp add: x abs_mult)
  also have "\<dots> < 2 ^ 53 * 2 powi k"
  proof (rule mult_strict_right_mono)
    have "(of_int \<bar>m\<bar> :: rat) < of_int (2 ^ 53)" using m by (simp only: of_int_less_iff)
    then show "(of_int \<bar>m\<bar> :: rat) < 2 ^ 53" by simp
  qed simp
  also have "\<dots> = 2 powi (53 + k)" by (simp add: power_int_add)
  finally have "ilog2 x < 53 + k" by (rule ilog2_less [OF False])
  with k have ek: "e - 52 \<le> k" by (simp add: e_def)
  have "(2 :: rat) powi k = 2 powi (e - 52) * 2 powi (k - (e - 52))"
    by (simp flip: power_int_add)
  also have "(2 :: rat) powi (k - (e - 52)) = 2 ^ j"
    using ek by (simp add: j_def power_int_nonneg_exp)
  finally have kq: "(2 :: rat) powi k = q * 2 ^ j" by (simp add: q_def)
  have q0: "q \<noteq> 0" by (simp add: q_def)
  have xq: "x / q = of_int (m * 2 ^ j)" using q0 by (simp add: x kq)
  have "of_int (roundTiesToEven (x / q)) * q = x"
    unfolding xq roundTiesToEven_of_int by (simp add: x kq)
  then show ?thesis
    using False fin by (simp add: nearest_double_def Let_def e_def q_def)
qed

lemma nearest_double_of_int:
  assumes "\<bar>n\<bar> < 2 ^ 53"
  shows "nearest_double (of_int n) = Finite (of_int n)"
proof (rule nearest_double_exact [where m = n and k = 0])
  have "(of_int \<bar>n\<bar> :: rat) < of_int (2 ^ 53)" using assms by (simp only: of_int_less_iff)
  then show "\<bar>of_int n :: rat\<bar> < 2 ^ 1024" by simp
qed (use assms in simp_all)

lemma nearest_double_half:
  assumes "\<bar>n\<bar> < 2 ^ 53"
  shows "nearest_double (of_int n / 2) = Finite (of_int n / 2)"
proof (rule nearest_double_exact [where m = n and k = "- 1"])
  have "(of_int \<bar>n\<bar> :: rat) < of_int (2 ^ 53)" using assms by (simp only: of_int_less_iff)
  then show "\<bar>of_int n / 2 :: rat\<bar> < 2 ^ 1024" by simp
qed (use assms in simp_all)

lemma Number_add_Finite: "Number_add (Finite x) (Finite y) = nearest_double (x + y)"
  by (simp add: Number_add_def)

lemma Number_subtract_Finite: "Number_subtract (Finite x) (Finite y) = nearest_double (x - y)"
  by (simp add: Number_subtract_def Number_unaryMinus_def Number_add_def)

lemma Number_multiply_Finite: "Number_multiply (Finite x) (Finite y) = nearest_double (x * y)"
  by (simp add: Number_multiply_def)

lemma Number_divide_Finite:
  "y \<noteq> 0 \<Longrightarrow> Number_divide (Finite x) (Finite y) = nearest_double (x / y)"
  by (simp add: Number_divide_def)

lemma Math_round_Finite: "Math_round (Finite x) = Finite (of_int \<lfloor>x + 1 / 2\<rfloor>)"
  by (simp add: Math_round_def)

lemma Number_of_int_small: "\<bar>n\<bar> < 2 ^ 53 \<Longrightarrow> Number_of_int n = Finite (of_int n)"
  unfolding Number_of_int_def by (rule nearest_double_of_int)

lemma floor_off_tie:
  fixes t m :: int and d :: rat
  assumes "0 < m" and "t mod m \<noteq> 0" and "\<bar>d\<bar> < 1 / of_int m"
  shows "\<lfloor>of_int t / of_int m + d\<rfloor> = t div m"
proof (rule floor_unique)
  define u where "u = t mod m"
  have "0 \<le> u" "u < m" "u \<noteq> 0"
    using assms(1,2) pos_mod_sign [of m t] pos_mod_bound [of m t] by (simp_all add: u_def)
  then have u: "1 \<le> u" "u \<le> m - 1" by linarith+
  have t: "t = m * (t div m) + u" by (simp add: u_def)
  have m: "(0 :: rat) < of_int m" using assms(1) by simp
  have q: "(of_int t / of_int m :: rat) = of_int (t div m) + of_int u / of_int m"
    using m by (subst t) (simp add: field_simps)
  have lo: "1 / of_int m \<le> (of_int u / of_int m :: rat)"
    using m u(1) by (simp add: divide_le_cancel)
  have "(of_int u :: rat) \<le> of_int m - 1" using u(2) by (metis of_int_1 of_int_diff of_int_le_iff)
  then have hi: "(of_int u / of_int m :: rat) \<le> 1 - 1 / of_int m"
    using m by (simp add: field_simps)
  show "of_int (t div m) \<le> of_int t / of_int m + d" using q lo assms(3) by linarith
  show "of_int t / of_int m + d < of_int (t div m) + 1" using q hi assms(3) by linarith
qed

section \<open>The translation functions on integers of moderate size\<close>

text \<open>
  When the rounded quotient of two integers is rounded again by \<^verbatim>\<open>Math.round\<close>, the
  result is that of exact arithmetic, provided the quotient is small enough for the
  doubles around it to lie closer together than the multiples of \<open>1 / (2 * b)\<close>.
\<close>

lemma Math_round_quotient:
  fixes a b :: int
  assumes b: "0 < b" and a: "\<bar>a\<bar> < 2 ^ n * b" and n: "n \<le> 52" and bn: "b * 2 ^ n \<le> 2 ^ 52"
  shows "Math_round (nearest_double (of_int a / of_int b))
           = Finite (of_int ((2 * a + b) div (2 * b)))"
proof -
  define x :: rat where "x = of_int a / of_int b"
  define j where "j = (2 * a + b) div (2 * b)"
  have b0: "(0 :: rat) < of_int b" using b by simp
  have "(of_int \<bar>a\<bar> :: rat) < of_int (2 ^ n * b)" using a by (simp only: of_int_less_iff)
  then have x: "\<bar>x\<bar> < 2 ^ n" using b0 by (simp add: x_def field_simps)
  from nearest_double_error [OF x] n obtain z
    where z: "nearest_double x = Finite z" and err: "\<bar>z - x\<bar> \<le> 2 powi (int n - 54)"
    by auto
  have half: "x + 1 / 2 = of_int (2 * a + b) / of_int (2 * b)"
    using b0 by (simp add: x_def field_simps)
  have "\<lfloor>z + 1 / 2\<rfloor> = j"
  proof (cases "(2 * a + b) mod (2 * b) = 0")
    case True
    moreover have "2 * b * j + (2 * a + b) mod (2 * b) = 2 * a + b"
      unfolding j_def by (rule mult_div_mod_eq)
    ultimately have "2 * a + b = 2 * b * j" by simp
    then have ab: "2 * a = b * (2 * j - 1)" by (simp add: algebra_simps)
    have "2 * x = of_int (2 * a) / of_int b" by (simp add: x_def)
    also have "\<dots> = of_int (2 * j - 1)" using b0 by (simp only: ab of_int_mult) simp
    finally have xj: "x = of_int (2 * j - 1) / 2" by simp
    have "(2 :: rat) ^ n \<le> 2 ^ 52" by (rule power_increasing) (use n in simp_all)
    with x have "\<bar>2 * x\<bar> < 2 ^ 53" by (simp add: abs_mult)
    then have "(of_int \<bar>2 * j - 1\<bar> :: rat) < of_int (2 ^ 53)" by (simp add: xj)
    then have "\<bar>2 * j - 1\<bar> < 2 ^ 53" by (simp only: of_int_less_iff)
    from nearest_double_half [OF this] z have "z = x" by (simp add: xj)
    then have "z + 1 / 2 = of_int j" by (simp add: xj)
    then show ?thesis by simp
  next
    case False
    have "(of_int (b * 2 ^ n) :: rat) \<le> of_int (2 ^ 52)" using bn by (simp only: of_int_le_iff)
    then have "of_int b * (2 :: rat) ^ n \<le> 2 ^ 52" by simp
    moreover have "(2 :: rat) ^ n = 2 powi (int n - 54) * 2 ^ 54"
      by (simp add: power_int_diff)
    ultimately have "(of_int b * 2 powi (int n - 54)) * 2 ^ 54 \<le> (2 :: rat) ^ 52"
      by (simp only: mult.assoc)
    then have "of_int b * (2 :: rat) powi (int n - 54) \<le> 1 / 4" by simp
    then have "of_int (2 * b) * (2 :: rat) powi (int n - 54) < 1" by simp
    then have "(2 :: rat) powi (int n - 54) < 1 / of_int (2 * b)"
      using b0 by (simp add: field_simps)
    with err have d: "\<bar>z - x\<bar> < 1 / of_int (2 * b)" by simp
    have "\<lfloor>of_int (2 * a + b) / of_int (2 * b) + (z - x)\<rfloor> = (2 * a + b) div (2 * b)"
      by (rule floor_off_tie [OF _ False d]) (use b in simp)
    moreover have "z + 1 / 2 = of_int (2 * a + b) / of_int (2 * b) + (z - x)"
      unfolding half [symmetric] by simp
    ultimately show ?thesis by (simp only: j_def)
  qed
  then show ?thesis by (simp add: z x_def [symmetric] Math_round_Finite j_def)
qed


lemma Math_round_offset_quotient:
  fixes m a :: int
  assumes m: "\<bar>m\<bar> \<le> 2 ^ 44" and a: "\<bar>a\<bar> \<le> 100 * 2 ^ 45"
  shows "\<exists>x. nearest_double (of_int a / 100) = Finite x
           \<and> Math_round (nearest_double (of_int m + x))
               = Finite (of_int (m + (2 * a + 100) div 200))"
proof -
  define x :: rat where "x = of_int a / 100"
  define j where "j = (a + 50) div 100"
  have "(of_int \<bar>a\<bar> :: rat) \<le> of_int (100 * 2 ^ 45)" using a by (simp only: of_int_le_iff)
  then have x: "\<bar>x\<bar> < 2 ^ 46" by (simp add: x_def)
  from nearest_double_error [OF x] obtain x2
    where x2: "nearest_double x = Finite x2" and e2: "\<bar>x2 - x\<bar> \<le> 2 powi (int 46 - 54)"
    by auto
  have e2': "\<bar>x2 - x\<bar> \<le> 1 / 2 ^ 8" using e2 by (simp add: power_int_minus_divide)
  have "(of_int \<bar>m\<bar> :: rat) \<le> of_int (2 ^ 44)" using m by (simp only: of_int_le_iff)
  then have m': "\<bar>of_int m :: rat\<bar> \<le> 2 ^ 44" by simp
  have x': "\<bar>x\<bar> \<le> 2 ^ 45"
    using \<open>(of_int \<bar>a\<bar> :: rat) \<le> of_int (100 * 2 ^ 45)\<close> by (simp add: x_def)
  have "\<bar>of_int m + x2\<bar> \<le> \<bar>of_int m :: rat\<bar> + \<bar>x\<bar> + \<bar>x2 - x\<bar>" by linarith
  with m' x' e2' have s: "\<bar>of_int m + x2\<bar> < 2 ^ 46" by simp
  from nearest_double_error [OF s] obtain x3
    where x3: "nearest_double (of_int m + x2) = Finite x3"
      and e3: "\<bar>x3 - (of_int m + x2)\<bar> \<le> 2 powi (int 46 - 54)"
    by auto
  have e3': "\<bar>x3 - (of_int m + x2)\<bar> \<le> 1 / 2 ^ 8" using e3 by (simp add: power_int_minus_divide)
  have half: "of_int m + x + 1 / 2 = of_int (100 * m + a + 50) / of_int 100"
    by (simp add: x_def field_simps)
  have dv: "(100 * m + a + 50) div 100 = m + j"
    by (simp add: j_def add.assoc)
  have "(2 * a + 100) div 200 = (2 * (a + 50)) div (2 * 100)" by (simp add: algebra_simps)
  also have "\<dots> = j" unfolding j_def by (rule div_mult_mult1) simp
  finally have j: "(2 * a + 100) div 200 = j" .
  have "\<lfloor>x3 + 1 / 2\<rfloor> = m + j"
  proof (cases "(100 * m + a + 50) mod 100 = 0")
    case True
    then have "(a + 50) mod 100 = 0" by (simp add: add.assoc)
    moreover have "100 * j + (a + 50) mod 100 = a + 50"
      unfolding j_def by (rule mult_div_mod_eq)
    ultimately have aj: "a = 50 * (2 * j - 1)" by simp
    have xj: "x = of_int (2 * j - 1) / 2" by (simp add: x_def aj)
    from x have "\<bar>2 * x\<bar> < 2 ^ 53" by (simp add: abs_mult)
    then have "(of_int \<bar>2 * j - 1\<bar> :: rat) < of_int (2 ^ 53)" by (simp add: xj)
    then have "\<bar>2 * j - 1\<bar> < 2 ^ 53" by (simp only: of_int_less_iff)
    from nearest_double_half [OF this] x2 have x2x: "x2 = x" by (simp add: xj)
    have sj: "of_int m + x2 = of_int (2 * m + (2 * j - 1)) / 2" by (simp add: x2x xj)
    from s have "\<bar>2 * (of_int m + x2)\<bar> < 2 ^ 53" by (simp add: abs_mult)
    then have "(of_int \<bar>2 * m + (2 * j - 1)\<bar> :: rat) < of_int (2 ^ 53)" by (simp add: sj)
    then have "\<bar>2 * m + (2 * j - 1)\<bar> < 2 ^ 53" by (simp only: of_int_less_iff)
    from nearest_double_half [OF this] x3 have "x3 = of_int m + x2" by (simp add: sj)
    then have "x3 + 1 / 2 = of_int (m + j)" by (simp add: x2x xj field_simps)
    then show ?thesis by simp
  next
    case False
    define d where "d = (x3 - (of_int m + x2)) + (x2 - x)"
    have "\<bar>d\<bar> \<le> \<bar>x3 - (of_int m + x2)\<bar> + \<bar>x2 - x\<bar>" unfolding d_def by linarith
    with e2' e3' have d: "\<bar>d\<bar> < 1 / of_int 100" by simp
    have "\<lfloor>of_int (100 * m + a + 50) / of_int 100 + d\<rfloor> = (100 * m + a + 50) div 100"
      by (rule floor_off_tie [OF _ False d]) simp
    moreover have "x3 + 1 / 2 = of_int (100 * m + a + 50) / of_int 100 + d"
      unfolding half [symmetric] d_def by simp
    ultimately show ?thesis by (simp only: dv)
  qed
  then have "Math_round (nearest_double (of_int m + x2)) = Finite (of_int (m + (2 * a + 100) div 200))"
    by (simp add: x3 Math_round_Finite j)
  with x2 show ?thesis unfolding x_def by blast
qed

lemma percentToCommand_int:
  assumes mn: "\<bar>SHADE_MIN C\<bar> \<le> 2 ^ 44" and mx: "\<bar>SHADE_MAX C\<bar> \<le> 2 ^ 44" and p: "\<bar>p\<bar> \<le> 100"
  shows "percentToCommand C p
           = Finite (of_int (SHADE_MIN C + (2 * (p * (SHADE_MAX C - SHADE_MIN C)) + 100) div 200))"
proof -
  define r where "r = SHADE_MAX C - SHADE_MIN C"
  have r: "\<bar>r\<bar> \<le> 2 ^ 45" using mn mx by (simp add: r_def)
  have a: "\<bar>p * r\<bar> \<le> 100 * 2 ^ 45"
    unfolding abs_mult by (rule mult_mono [OF p r]) simp_all
  have n1: "Number_of_int (SHADE_MIN C) = Finite (of_int (SHADE_MIN C))"
    by (rule Number_of_int_small) (use mn in simp)
  have n2: "Number_of_int (SHADE_MAX C) = Finite (of_int (SHADE_MAX C))"
    by (rule Number_of_int_small) (use mx in simp)
  have n3: "Number_of_int p = Finite (of_int p)"
    by (rule Number_of_int_small) (use p in simp)
  have "nearest_double (of_int r) = Finite (of_int r)"
    by (rule nearest_double_of_int) (use r in simp)
  then have rng: "Number_subtract (Finite (of_int (SHADE_MAX C))) (Finite (of_int (SHADE_MIN C)))
                    = Finite (of_int r)"
    by (simp add: Number_subtract_Finite r_def)
  have "nearest_double (of_int (p * r)) = Finite (of_int (p * r))"
    by (rule nearest_double_of_int) (use a in simp)
  then have prod: "Number_multiply (Finite (of_int p)) (Finite (of_int r)) = Finite (of_int (p * r))"
    by (simp add: Number_multiply_Finite)
  from Math_round_offset_quotient [OF mn a] obtain x
    where "nearest_double (of_int (p * r) / 100) = Finite x"
      and "Math_round (nearest_double (of_int (SHADE_MIN C) + x))
             = Finite (of_int (SHADE_MIN C + (2 * (p * r) + 100) div 200))"
    by blast
  then show ?thesis
    unfolding percentToCommand_def Let_def n1 n2 n3 rng prod
    by (simp add: Number_divide_Finite Number_add_Finite r_def)
qed

lemma commandToPercent_int:
  assumes mn: "\<bar>SHADE_MIN C\<bar> \<le> 2 ^ 44" and mx: "\<bar>SHADE_MAX C\<bar> \<le> 2 ^ 44"
    and lt: "SHADE_MIN C < SHADE_MAX C"
    and k: "\<bar>k\<bar> \<le> SHADE_MAX C - SHADE_MIN C"
  shows "commandToPercent C (Finite (of_int (SHADE_MIN C + k)))
           = Finite (of_int ((2 * (k * 100) + (SHADE_MAX C - SHADE_MIN C))
                              div (2 * (SHADE_MAX C - SHADE_MIN C))))"
proof -
  define r where "r = SHADE_MAX C - SHADE_MIN C"
  have r0: "0 < r" using lt by (simp add: r_def)
  have r: "r \<le> 2 ^ 45" using mn mx by (simp add: r_def)
  have k': "\<bar>k\<bar> \<le> r" using k by (simp add: r_def)
  have n1: "Number_of_int (SHADE_MIN C) = Finite (of_int (SHADE_MIN C))"
    by (rule Number_of_int_small) (use mn in simp)
  have n2: "Number_of_int (SHADE_MAX C) = Finite (of_int (SHADE_MAX C))"
    by (rule Number_of_int_small) (use mx in simp)
  have "nearest_double (of_int r) = Finite (of_int r)"
    by (rule nearest_double_of_int) (use r r0 in simp)
  then have rng: "Number_subtract (Finite (of_int (SHADE_MAX C))) (Finite (of_int (SHADE_MIN C)))
                    = Finite (of_int r)"
    by (simp add: Number_subtract_Finite r_def)
  have "nearest_double (of_int k) = Finite (of_int k)"
    by (rule nearest_double_of_int) (use k' r in simp)
  then have d: "Number_subtract (Finite (of_int (SHADE_MIN C + k))) (Finite (of_int (SHADE_MIN C)))
                  = Finite (of_int k)"
    by (simp add: Number_subtract_Finite)
  have "nearest_double (of_int (k * 100)) = Finite (of_int (k * 100))"
    by (rule nearest_double_of_int) (use k' r in simp)
  then have prod: "Number_multiply (Finite (of_int k)) (Finite 100) = Finite (of_int (k * 100))"
    by (simp add: Number_multiply_Finite)
  have "\<bar>k * 100\<bar> < 2 ^ 7 * r" using k' r0 by (simp add: abs_mult)
  moreover have "r * 2 ^ 7 \<le> 2 ^ 52" using r by simp
  ultimately have "Math_round (nearest_double (of_int (k * 100) / of_int r))
                     = Finite (of_int ((2 * (k * 100) + r) div (2 * r)))"
    by (intro Math_round_quotient [where n = 7] r0) simp_all
  then show ?thesis
    unfolding commandToPercent_def Let_def n1 n2 rng d prod
    using r0 by (simp add: Number_divide_Finite r_def)
qed

lemma positionToPercent_int:
  assumes "\<bar>n\<bar> \<le> 2 ^ 48"
  shows "positionToPercent (Some n) = Finite (of_int ((n + 5) div 10))"
proof -
  have n1: "Number_of_int n = Finite (of_int n)"
    by (rule Number_of_int_small) (use assms in simp)
  have "Math_round (nearest_double (of_int n / of_int 10)) = Finite (of_int ((2 * n + 10) div (2 * 10)))"
    by (rule Math_round_quotient [where n = 48]) (use assms in simp_all)
  moreover have "(2 * n + 10) div (2 * 10) = (2 * (n + 5)) div (2 * 10)" by (simp add: algebra_simps)
  moreover have "(2 * (n + 5)) div (2 * 10) = (n + 5) div 10" by (rule div_mult_mult1) simp
  ultimately show ?thesis by (simp add: positionToPercent_def n1 Number_divide_Finite)
qed

lemma positionToPercent_850: "positionToPercent (Some 850) = Finite 85"
  using positionToPercent_int [of 850] by simp

section \<open>The translation functions beyond \<open>2 ^ 52\<close>\<close>

text \<open>
  Where the doubles are further apart than the integers, the rounding of the
  operators shows in the results: \<open>2 ^ 54 + 2\<close> is no double and is rounded to
  \<open>2 ^ 54\<close>, so that 2 percent of a range of 100 comes back as 0; and the product
  \<open>(2 ^ 52 + 1) * 100\<close> is rounded before it is divided by 3.
\<close>

lemma ilog2_eqI:
  assumes "2 powi e \<le> \<bar>x\<bar>" and "\<bar>x\<bar> < 2 powi (e + 1)"
  shows "ilog2 x = e"
proof -
  have x: "x \<noteq> 0"
  proof
    assume "x = 0"
    with assms(1) have "(2 :: rat) powi e \<le> 0" by simp
    moreover have "(0 :: rat) < 2 powi e" by simp
    ultimately show False by linarith
  qed
  have "(2 :: rat) powi e < 2 powi (ilog2 x + 1)"
    using assms(1) ilog2_upper [OF x] by simp
  then have "e < ilog2 x + 1"
    by (metis not_less power_int_increasing one_le_numeral)
  moreover have "ilog2 x < e + 1" by (rule ilog2_less [OF x assms(2)])
  ultimately show ?thesis by simp
qed

lemma roundTiesToEven_eqI:
  assumes "\<bar>of_int m - t\<bar> < 1 / 2"
  shows "roundTiesToEven t = m"
proof -
  have "\<bar>(of_int (roundTiesToEven t - m) :: rat)\<bar> < 1"
    using roundTiesToEven_error [of t] assms unfolding of_int_diff by linarith
  then have "\<bar>roundTiesToEven t - m\<bar> < 1"
    by (metis of_int_abs of_int_less_1_iff)
  then show ?thesis by simp
qed

lemma roundTiesToEven_tie:
  "roundTiesToEven (of_int n + 1 / 2) = (if even n then n else n + 1)"
proof -
  have "\<lfloor>of_int n + 1 / 2 :: rat\<rfloor> = n" by (rule floor_unique) simp_all
  then show ?thesis by (simp add: roundTiesToEven_def)
qed

lemma nearest_double_eqI:
  assumes "2 powi e \<le> \<bar>x\<bar>" and "\<bar>x\<bar> < 2 powi (e + 1)" and "- 1022 \<le> e"
    and "roundTiesToEven (x / 2 powi (e - 52)) = m"
    and "\<bar>of_int m * 2 powi (e - 52) :: rat\<bar> < 2 ^ 1024"
  shows "nearest_double x = Finite (of_int m * 2 powi (e - 52))"
proof -
  have x: "x \<noteq> 0"
  proof
    assume "x = 0"
    with assms(1) have "(2 :: rat) powi e \<le> 0" by simp
    moreover have "(0 :: rat) < 2 powi e" by simp
    ultimately show False by linarith
  qed
  have "max (ilog2 x) (- 1022) = e" using ilog2_eqI [OF assms(1,2)] assms(3) by simp
  then show ?thesis using x assms(4,5) by (simp add: nearest_double_def Let_def)
qed

lemma percentToCommand_2_54:
  "percentToCommand \<lparr>SHADE_MIN = 2 ^ 54, SHADE_MAX = 2 ^ 54 + 100\<rparr> 2 = Finite (2 ^ 54)"
proof -
  have n1: "Number_of_int (2 ^ 54) = Finite (2 ^ 54)"
    using nearest_double_exact [where x = "2 ^ 54" and m = 1 and k = 54]
    by (simp add: Number_of_int_def)
  have n2: "Number_of_int (2 ^ 54 + 100) = Finite (2 ^ 54 + 100)"
    using nearest_double_exact [where x = "2 ^ 54 + 100" and m = "2 ^ 52 + 25" and k = 2]
    by (simp add: Number_of_int_def)
  have n3: "Number_of_int 2 = Finite 2"
    using Number_of_int_small [of 2] by simp
  have rng: "Number_subtract (Finite (2 ^ 54 + 100)) (Finite (2 ^ 54)) = Finite 100"
    using nearest_double_of_int [of 100] by (simp add: Number_subtract_Finite)
  have prod: "Number_multiply (Finite 2) (Finite 100) = Finite 200"
    using nearest_double_of_int [of 200] by (simp add: Number_multiply_Finite)
  have quot: "Number_divide (Finite 200) (Finite 100) = Finite 2"
    using nearest_double_of_int [of 2] by (simp add: Number_divide_Finite)
  have "roundTiesToEven ((2 ^ 54 + 2) / 2 powi (54 - 52)) = 2 ^ 52"
    using roundTiesToEven_tie [of "2 ^ 52"] by simp
  then have "nearest_double (2 ^ 54 + 2) = Finite (of_int (2 ^ 52) * 2 powi (54 - 52))"
    by (intro nearest_double_eqI) simp_all
  then have sum: "Number_add (Finite (2 ^ 54)) (Finite 2) = Finite (2 ^ 54)"
    by (simp add: Number_add_Finite)
  have "\<lfloor>2 ^ 54 + 1 / 2 :: rat\<rfloor> = 2 ^ 54" by (rule floor_unique) simp_all
  then have rnd: "Math_round (Finite (2 ^ 54)) = Finite (2 ^ 54)"
    by (simp add: Math_round_Finite)
  show ?thesis
    unfolding percentToCommand_def Let_def by (simp only: config.select_convs n1 n2 n3 rng prod quot sum rnd)
qed

lemma commandToPercent_2_54:
  "commandToPercent \<lparr>SHADE_MIN = 2 ^ 54, SHADE_MAX = 2 ^ 54 + 100\<rparr> (Finite (2 ^ 54)) = Finite 0"
proof -
  have n1: "Number_of_int (2 ^ 54) = Finite (2 ^ 54)"
    using nearest_double_exact [where x = "2 ^ 54" and m = 1 and k = 54]
    by (simp add: Number_of_int_def)
  have n2: "Number_of_int (2 ^ 54 + 100) = Finite (2 ^ 54 + 100)"
    using nearest_double_exact [where x = "2 ^ 54 + 100" and m = "2 ^ 52 + 25" and k = 2]
    by (simp add: Number_of_int_def)
  have rng: "Number_subtract (Finite (2 ^ 54 + 100)) (Finite (2 ^ 54)) = Finite 100"
    using nearest_double_of_int [of 100] by (simp add: Number_subtract_Finite)
  have d: "Number_subtract (Finite (2 ^ 54)) (Finite (2 ^ 54)) = Finite 0"
    by (simp add: Number_subtract_Finite nearest_double_def)
  have prod: "Number_multiply (Finite 0) (Finite 100) = Finite 0"
    by (simp add: Number_multiply_Finite nearest_double_def)
  have quot: "Number_divide (Finite 0) (Finite 100) = Finite 0"
    by (simp add: Number_divide_Finite nearest_double_def)
  have "\<lfloor>0 + 1 / 2 :: rat\<rfloor> = 0" by (rule floor_unique) simp_all
  then have rnd: "Math_round (Finite 0) = Finite 0"
    by (simp add: Math_round_Finite)
  show ?thesis
    unfolding commandToPercent_def Let_def by (simp only: config.select_convs n1 n2 rng d prod quot rnd)
qed

lemma round_trip_2_54:
  "commandToPercent \<lparr>SHADE_MIN = 2 ^ 54, SHADE_MAX = 2 ^ 54 + 100\<rparr>
     (percentToCommand \<lparr>SHADE_MIN = 2 ^ 54, SHADE_MAX = 2 ^ 54 + 100\<rparr> 2) = Finite 0"
  by (simp only: percentToCommand_2_54 commandToPercent_2_54)

lemma commandToPercent_2_52:
  "commandToPercent \<lparr>SHADE_MIN = 73, SHADE_MAX = 76\<rparr> (Finite (2 ^ 52 + 74))
     = Finite 150119987579016576"
proof -
  have n1: "Number_of_int 73 = Finite 73" using Number_of_int_small [of 73] by simp
  have n2: "Number_of_int 76 = Finite 76" using Number_of_int_small [of 76] by simp
  have rng: "Number_subtract (Finite 76) (Finite 73) = Finite 3"
    using nearest_double_of_int [of 3] by (simp add: Number_subtract_Finite)
  have d: "Number_subtract (Finite (2 ^ 52 + 74)) (Finite 73) = Finite (2 ^ 52 + 1)"
    using nearest_double_of_int [of "2 ^ 52 + 1"] by (simp add: Number_subtract_Finite)
  have "roundTiesToEven ((2 ^ 52 + 1) * 100 / 2 powi (58 - 52)) = 7036874417766402"
    by (rule roundTiesToEven_eqI) simp
  then have "nearest_double ((2 ^ 52 + 1) * 100) = Finite (of_int 7036874417766402 * 2 powi (58 - 52))"
    by (intro nearest_double_eqI) simp_all
  then have prod: "Number_multiply (Finite (2 ^ 52 + 1)) (Finite 100) = Finite 450359962737049728"
    by (simp add: Number_multiply_Finite)
  have quot: "Number_divide (Finite 450359962737049728) (Finite 3) = Finite 150119987579016576"
    using nearest_double_exact [where x = 150119987579016576 and m = 4691249611844268 and k = 5]
    by (simp add: Number_divide_Finite)
  have "\<lfloor>150119987579016576 + 1 / 2 :: rat\<rfloor> = 150119987579016576"
    by (rule floor_unique) simp_all
  then have rnd: "Math_round (Finite 150119987579016576) = Finite 150119987579016576"
    by (simp add: Math_round_Finite)
  show ?thesis
    unfolding commandToPercent_def Let_def by (simp only: config.select_convs n1 n2 rng d prod quot rnd)
qed

section \<open>Rounding in integer arithmetic\<close>

lemma div_lower: "0 < (b::int) \<Longrightarrow> b * (a div b) \<le> a"
  by (metis mult_div_mod_eq pos_mod_sign le_add_same_cancel1)

lemma div_upper: "0 < (b::int) \<Longrightarrow> a < b * (a div b) + b"
  by (metis mult_div_mod_eq pos_mod_bound add_less_cancel_left)

text \<open>
  Rounding \<open>p * r / 100\<close> to \<open>k\<close> and \<open>k * 100 / r\<close> to \<open>q\<close> moves \<open>p\<close> by at most
  \<open>1/2 + 50/r\<close>.
\<close>

lemma round_trip_int:
  fixes r p :: int
  assumes r0: "0 < r"
  defines "k \<equiv> (2 * (p * r) + 100) div 200"
  defines "q \<equiv> (2 * (k * 100) + r) div (2 * r)"
  shows "2 * r * \<bar>q - p\<bar> \<le> r + 100"
proof -
  have rpos: "0 < 2 * r" using r0 by simp
  have k1: "200 * k \<le> 2 * (p * r) + 100"
    unfolding k_def by (rule div_lower) simp
  have k2: "2 * (p * r) + 100 < 200 * k + 200"
    unfolding k_def by (rule div_upper) simp
  have q1: "2 * r * q \<le> 2 * (k * 100) + r"
    unfolding q_def by (rule div_lower [OF rpos])
  have q2: "2 * (k * 100) + r < 2 * r * q + 2 * r"
    unfolding q_def by (rule div_upper [OF rpos])
  have e1: "2 * r * q = 2 * (r * q)" and e2: "2 * (k * 100) = 200 * k" by simp_all
  have up: "2 * (r * q) - 2 * (p * r) \<le> r + 100"
    using q1 k1 unfolding e1 e2 by linarith
  have lo: "- (r + 100) \<le> 2 * (r * q) - 2 * (p * r)"
    using q2 k2 unfolding e1 e2 by linarith
  have e3: "2 * r * (q - p) = 2 * (r * q) - 2 * (p * r)"
    by (simp add: algebra_simps)
  show ?thesis
  proof (cases "p \<le> q")
    case True
    then have "\<bar>q - p\<bar> = q - p" by simp
    then show ?thesis using up e3 by simp
  next
    case False
    then have "\<bar>q - p\<bar> = - (q - p)" by simp
    then have "2 * r * \<bar>q - p\<bar> = - (2 * r * (q - p))" by (simp only: mult_minus_right)
    then show ?thesis using lo e3 by linarith
  qed
qed

lemma round_trip_within_1:
  fixes r d :: int
  assumes "34 \<le> r" and "2 * r * \<bar>d\<bar> \<le> r + 100"
  shows "\<bar>d\<bar> \<le> 1"
proof (rule ccontr)
  assume "\<not> \<bar>d\<bar> \<le> 1"
  then have "2 \<le> \<bar>d\<bar>" by simp
  moreover have "0 \<le> 2 * r" using assms(1) by simp
  ultimately have "2 * r * 2 \<le> 2 * r * \<bar>d\<bar>" by (rule mult_left_mono)
  with assms show False by linarith
qed

section \<open>Bytes\<close>

lemma unat_and_0x7F: "unat ((x :: byte) AND 0x7F) = unat x mod 128"
proof -
  have "(0x7F :: byte) = mask 7" by (simp add: mask_eq_exp_minus_1)
  then have "x AND 0x7F = take_bit 7 x" by (simp only: take_bit_eq_mask)
  then have "unat (x AND 0x7F) = take_bit 7 (unat x)" by (simp only: unsigned_take_bit_eq)
  also have "\<dots> = unat x mod 2 ^ 7" by (rule take_bit_eq_mod)
  finally show ?thesis by simp
qed

lemma and_0x80_eq_0: "((x :: byte) AND 0x80 = 0) \<longleftrightarrow> unat x < 128"
proof -
  have "(0x80 :: byte) = 2 ^ 7" by simp
  then have "(x AND 0x80 = 0) \<longleftrightarrow> \<not> bit x 7"
    by (simp only: and_exp_eq_0_iff_not_bit)
  also have "bit x 7 \<longleftrightarrow> bit (unat x) 7"
    by (simp add: bit_unsigned_iff)
  also have "bit (unat x) 7 \<longleftrightarrow> odd (unat x div 2 ^ 7)"
    by (simp only: bit_nat_def)
  also have "\<dots> \<longleftrightarrow> 128 \<le> unat x"
  proof -
    have "unat x < 256" using unsigned_less [of x] by simp
    then have "unat x div 128 = (if 128 \<le> unat x then 1 else 0)" by auto
    then show ?thesis by simp
  qed
  finally show ?thesis by auto
qed

lemma unat_of_nat_byte: "n < 256 \<Longrightarrow> unat (of_nat n :: byte) = n"
  by (simp add: unat_of_nat)

lemma unat_128_plus: "n < 128 \<Longrightarrow> unat (128 + of_nat n :: byte) = 128 + n"
proof -
  assume "n < 128"
  then have "unat (of_nat (128 + n) :: byte) = 128 + n"
    by (intro unat_of_nat_byte) simp
  then show ?thesis by simp
qed

section \<open>Mask\<close>

lemma length_unmask_loop: "length (unmask_loop k i p) = length p"
  by (induction k i p rule: unmask_loop.induct) (subst unmask_loop.simps, simp)

lemma nth_unmask_loop:
  "j < length p \<Longrightarrow>
   unmask_loop k i p ! j = (if i \<le> j then (p ! j) XOR (k ! (j mod 4)) else p ! j)"
proof (induction k i p rule: unmask_loop.induct)
  case (1 k i p)
  show ?case
  proof (cases "i < length p")
    case True
    have "unmask_loop k i p = unmask_loop k (i + 1) (p[i := (p ! i) XOR (k ! (i mod 4))])"
      using True by (subst unmask_loop.simps) simp
    moreover have "j < length (p[i := (p ! i) XOR (k ! (i mod 4))])"
      using "1.prems" by simp
    ultimately show ?thesis
      using "1.IH" [OF True] "1.prems"
      by (cases "i = j") (auto simp add: nth_list_update)
  next
    case False
    then show ?thesis using "1.prems" by (subst unmask_loop.simps) simp
  qed
qed

lemma unmask_loop_xor_mask: "unmask_loop k 0 p = xor_mask k p"
  by (rule nth_equalityI) (simp_all add: length_unmask_loop nth_unmask_loop xor_mask_def)

lemma xor_mask_involution: "xor_mask k (xor_mask k p) = p"
  by (rule nth_equalityI) (simp_all add: xor_mask_def xor.assoc)

section \<open>Big-endian fields\<close>

lemma length_writeUIntBE: "length (writeUIntBE n v) = n"
  by (induction n arbitrary: v) simp_all

lemma foldl_writeUIntBE:
  "foldl (\<lambda>acc b. acc * 256 + unat (b :: byte)) a (writeUIntBE n v) = a * 256 ^ n + v mod 256 ^ n"
proof (induction n arbitrary: v)
  case 0
  then show ?case by simp
next
  case (Suc n)
  have "v mod (256 * 256 ^ n) = 256 * (v div 256 mod 256 ^ n) + v mod 256"
    by (simp add: mod_mult2_eq)
  then show ?case
    using Suc [of "v div 256"] by (simp add: unat_of_nat_byte algebra_simps)
qed

lemma readUIntBE_written:
  "readUIntBE (pre @ writeUIntBE n v @ post) (length pre) n = Inr (v mod 256 ^ n)"
  by (simp add: readUIntBE_def length_writeUIntBE foldl_writeUIntBE)

lemma readUIntBE_take:
  "off + k \<le> n \<Longrightarrow> n \<le> length F \<Longrightarrow> readUIntBE (take n F) off k = readUIntBE F off k"
  by (simp add: readUIntBE_def drop_take min_def)

section \<open>Conversion of the 64-bit length\<close>

lemma Number_of_BigInt_small: "n < 2 ^ 53 \<Longrightarrow> Number_of_BigInt n = n"
  by (simp add: Number_of_BigInt_def)

lemma Number_of_BigInt_large:
  assumes "2 ^ 53 \<le> n"
  shows "2 ^ 53 \<le> Number_of_BigInt n"
proof -
  define e where "e = floorlog 2 n - 53"
  define q where "q = n div 2 ^ e"
  have n0: "0 < n" using assms by (simp add: order.strict_trans2 [of 0 "2 ^ 53" n])
  have b: "2 ^ (floorlog 2 n - 1) \<le> n" "n < 2 ^ floorlog 2 n"
    using floorlog_bounds [OF n0, of 2] by simp_all
  have "(2::nat) ^ 53 < 2 ^ floorlog 2 n"
    using assms b(2) by (rule order.strict_trans1)
  then have "53 < floorlog 2 n"
    by (rule power_less_imp_less_exp [rotated]) simp
  then have e1: "1 \<le> e" and fl: "floorlog 2 n - 1 = 52 + e"
    by (simp_all add: e_def)
  have "(2::nat) ^ 52 * 2 ^ e \<le> n"
    using b(1) by (simp only: fl power_add)
  then have q52: "2 ^ 52 \<le> q"
    by (simp add: q_def less_eq_div_iff_mult_less_eq)
  have "(2::nat) ^ 1 \<le> 2 ^ e"
    using e1 by (intro power_increasing) simp_all
  then have "(2::nat) ^ 52 * 2 ^ 1 \<le> q * 2 ^ e"
    using q52 by (rule mult_le_mono [rotated])
  then have "(2::nat) ^ 53 \<le> q * 2 ^ e" by simp
  moreover have "q * 2 ^ e \<le> Number_of_BigInt n"
    using assms by (simp add: Number_of_BigInt_def Let_def e_def q_def)
  ultimately show ?thesis by (rule order_trans)
qed

section \<open>The length field of a frame on the wire\<close>

lemma wire_frame_second:
  assumes "well_formed enc mk w"
  shows "2 \<le> length (wire_frame b0 enc mk w)"
    and "(wire_frame b0 enc mk w @ rest) ! 0 = b0"
    and "unat (((wire_frame b0 enc mk w @ rest) ! 1) AND 0x7F)
           = (case enc of Len7 \<Rightarrow> length w | Len16 \<Rightarrow> 126 | Len64 \<Rightarrow> 127)"
    and "(((wire_frame b0 enc mk w @ rest) ! 1) AND 0x80 \<noteq> 0) = (mk \<noteq> None)"
  using assms
  by (auto simp add: wire_frame_def well_formed_def Let_def unat_and_0x7F and_0x80_eq_0
      unat_of_nat_byte unat_128_plus split: length_encoding.splits option.splits)

lemma length_wire_frame:
  "well_formed enc mk w \<Longrightarrow>
   length (wire_frame b0 enc mk w)
     = header_size enc + (case mk of None \<Rightarrow> 0 | Some k \<Rightarrow> 4) + length w"
  by (auto simp add: wire_frame_def well_formed_def header_size_def Let_def length_writeUIntBE
      split: length_encoding.splits option.splits)


lemma readUIntBE_after_two:
  "readUIntBE (b0 # b1 # writeUIntBE n v @ post) 2 n = Inr (v mod 256 ^ n)"
  using readUIntBE_written [of "[b0, b1]" n v post] by (simp add: numeral_2_eq_2)

lemma read_payloadLength_wire_frame:
  assumes "well_formed enc mk w"
  shows "read_payloadLength (wire_frame b0 enc mk w @ rest) ((wire_frame b0 enc mk w @ rest) ! 1)
       = Inr (Some (declared_length enc (length w), header_size enc))"
proof (cases enc)
  case Len7
  then show ?thesis
    using assms wire_frame_second(3) [OF assms, of b0 rest]
    by (simp add: read_payloadLength_def Let_def declared_length_def header_size_def
        well_formed_def)
next
  case Len16
  have l: "length w mod 256 ^ 2 = length w"
    using assms Len16 by (simp add: well_formed_def)
  have r: "readUInt16BE (wire_frame b0 enc mk w @ rest) 2 = Inr (length w)"
    unfolding readUInt16BE_def using Len16 readUIntBE_after_two [of b0 _ 2 "length w"] l
    by (simp add: wire_frame_def Let_def)
  have "4 \<le> length (wire_frame b0 enc mk w @ rest)"
    using Len16 length_wire_frame [OF assms, of b0] by (simp add: header_size_def)
  then show ?thesis
    using Len16 r wire_frame_second(3) [OF assms, of b0 rest]
    by (simp add: read_payloadLength_def Let_def declared_length_def header_size_def)
next
  case Len64
  have l: "length w mod 256 ^ 8 = length w"
    using assms Len64 by (simp add: well_formed_def)
  have r: "readBigUInt64BE (wire_frame b0 enc mk w @ rest) 2 = Inr (length w)"
    unfolding readBigUInt64BE_def using Len64 readUIntBE_after_two [of b0 _ 8 "length w"] l
    by (simp add: wire_frame_def Let_def)
  have "10 \<le> length (wire_frame b0 enc mk w @ rest)"
    using Len64 length_wire_frame [OF assms, of b0] by (simp add: header_size_def)
  then show ?thesis
    using Len64 r wire_frame_second(3) [OF assms, of b0 rest]
    by (simp add: read_payloadLength_def Let_def declared_length_def header_size_def)
qed

lemma read_payloadLength_take:
  assumes "read_payloadLength F b = Inr (Some (pl, off))" and "n \<le> length F" and "2 \<le> n"
  shows "read_payloadLength (take n F) b = (if n < off then Inr None else Inr (Some (pl, off)))"
proof -
  consider (ext16) "unat (b AND 0x7F) = 126" | (ext64) "unat (b AND 0x7F) = 127"
    | (direct) "unat (b AND 0x7F) \<noteq> 126" "unat (b AND 0x7F) \<noteq> 127"
    by blast
  then show ?thesis
  proof cases
    case ext16
    with assms(1) have F: "4 \<le> length F" "readUInt16BE F 2 = Inr pl" "off = 4"
      by (auto simp add: read_payloadLength_def Let_def split: if_splits sum.splits)
    show ?thesis
    proof (cases "n < 4")
      case True
      then show ?thesis using ext16 F(3) assms(2)
        by (simp add: read_payloadLength_def Let_def)
    next
      case False
      then have "readUInt16BE (take n F) 2 = Inr pl"
        using F(2) assms(2) by (simp add: readUInt16BE_def readUIntBE_take)
      then show ?thesis using ext16 F(3) False assms(2)
        by (simp add: read_payloadLength_def Let_def)
    qed
  next
    case ext64
    with assms(1) obtain v where
      F: "10 \<le> length F" "readBigUInt64BE F 2 = Inr v" "pl = Number_of_BigInt v" "off = 10"
      by (auto simp add: read_payloadLength_def Let_def split: if_splits sum.splits)
    show ?thesis
    proof (cases "n < 10")
      case True
      then show ?thesis using ext64 F(4) assms(2)
        by (simp add: read_payloadLength_def Let_def)
    next
      case False
      then have "readBigUInt64BE (take n F) 2 = Inr v"
        using F(2) assms(2) by (simp add: readBigUInt64BE_def readUIntBE_take)
      then show ?thesis using ext64 F(3,4) False assms(2)
        by (simp add: read_payloadLength_def Let_def)
    qed
  next
    case direct
    with assms(1) have "pl = unat (b AND 0x7F)" "off = 2"
      by (auto simp add: read_payloadLength_def Let_def)
    then show ?thesis using direct assms(3)
      by (simp add: read_payloadLength_def Let_def)
  qed
qed


lemma parse_insufficient:
  assumes rd: "read_payloadLength F (F ! 1) = Inr (Some (pl, off))"
    and n: "n \<le> length F"
    and short: "n < (if (F ! 1) AND 0x80 \<noteq> 0 then off + 4 else off) + pl"
  shows "parseWebSocketFrame (take n F) = Inr None"
proof (cases "n < 2")
  case True
  then show ?thesis using n by (simp add: parseWebSocketFrame_def)
next
  case False
  then have n2: "2 \<le> n" by simp
  have b: "take n F ! 0 = F ! 0" "take n F ! 1 = F ! 1"
    using n2 by simp_all
  have len: "length (take n F) = n"
    using n by simp
  note r = read_payloadLength_take [OF rd n n2]
  show ?thesis
  proof (cases "n < off")
    case True
    then show ?thesis
      unfolding parseWebSocketFrame_def b len using n2 r by simp
  next
    case False
    then show ?thesis
      unfolding parseWebSocketFrame_def b len using n2 r short
      by (simp add: Let_def)
  qed
qed

lemma wire_frame_decomp:
  assumes "well_formed enc mk w"
  obtains hdr where "length hdr = header_size enc"
    and "wire_frame b0 enc mk w = hdr @ (case mk of None \<Rightarrow> [] | Some k \<Rightarrow> k) @ w"
proof -
  define ext where "ext = (case enc of Len7 \<Rightarrow> [] | Len16 \<Rightarrow> writeUIntBE 2 (length w)
                 | Len64 \<Rightarrow> writeUIntBE 8 (length w))"
  define b1 :: byte where "b1 = (case mk of
      None \<Rightarrow> of_nat (case enc of Len7 \<Rightarrow> length w | Len16 \<Rightarrow> 126 | Len64 \<Rightarrow> 127)
    | Some k \<Rightarrow> of_nat (128 + (case enc of Len7 \<Rightarrow> length w | Len16 \<Rightarrow> 126 | Len64 \<Rightarrow> 127)))"
  have "length (b0 # b1 # ext) = header_size enc"
    by (simp add: ext_def header_size_def length_writeUIntBE split: length_encoding.splits)
  moreover have "wire_frame b0 enc mk w = (b0 # b1 # ext) @ (case mk of None \<Rightarrow> [] | Some k \<Rightarrow> k) @ w"
    by (simp add: wire_frame_def Let_def ext_def b1_def)
  ultimately show ?thesis by (rule that)
qed

lemma parse_wire_frame:
  assumes wf: "well_formed enc mk w" and small: "length w < 2 ^ 53"
  shows "parseWebSocketFrame (wire_frame b0 enc mk w @ rest) =
     Inr (Some \<lparr>opcode = b0 AND 0x0F,
                payload = (case mk of None \<Rightarrow> w | Some k \<Rightarrow> xor_mask k w),
                totalLength = header_size enc + (case mk of None \<Rightarrow> 0 | Some k \<Rightarrow> 4) + length w\<rparr>)"
proof -
  define F where "F = wire_frame b0 enc mk w @ rest"
  obtain hdr where hdr: "length hdr = header_size enc"
    and dec: "wire_frame b0 enc mk w = hdr @ (case mk of None \<Rightarrow> [] | Some k \<Rightarrow> k) @ w"
    using wire_frame_decomp [OF wf] by blast
  have dl: "declared_length enc (length w) = length w"
    using small by (simp add: declared_length_def Number_of_BigInt_small split: length_encoding.splits)
  have rd: "read_payloadLength F (F ! 1) = Inr (Some (length w, header_size enc))"
    unfolding F_def using read_payloadLength_wire_frame [OF wf, of b0 rest] by (simp only: dl)
  have l2: "\<not> length F < 2"
    unfolding F_def using wire_frame_second(1) [OF wf, of b0] by simp
  have b0: "F ! 0 = b0"
    unfolding F_def by (rule wire_frame_second(2) [OF wf])
  have m: "((F ! 1) AND 0x80 \<noteq> 0) = (mk \<noteq> None)"
    unfolding F_def by (rule wire_frame_second(4) [OF wf])
  have hs2: "2 \<le> header_size enc"
    by (simp add: header_size_def split: length_encoding.splits)
  show ?thesis
  proof (cases mk)
    case None
    have Fd: "F = hdr @ w @ rest"
      unfolding F_def dec using None by simp
    have s: "slice F (header_size enc) (header_size enc + length w) = w"
      unfolding Fd slice_def using hdr by simp
    have len: "\<not> length F < header_size enc + length w"
      unfolding Fd using hdr by simp
    show ?thesis
      unfolding F_def [symmetric] parseWebSocketFrame_def
      using None l2 b0 m rd s len by (simp add: Let_def)
  next
    case (Some k)
    then have k4: "length k = 4"
      using wf by (simp add: well_formed_def)
    have Fd: "F = hdr @ k @ w @ rest"
      unfolding F_def dec using Some by simp
    have sk: "slice F (header_size enc) (header_size enc + 4) = k"
      unfolding Fd slice_def using hdr k4 by simp
    have sw: "slice F (header_size enc + 4) (header_size enc + 4 + length w) = w"
      unfolding Fd slice_def using hdr k4 by simp
    have len: "\<not> length F < header_size enc + 4" "\<not> length F < header_size enc + 4 + length w"
      unfolding Fd using hdr k4 by simp_all
    show ?thesis
      unfolding F_def [symmetric] parseWebSocketFrame_def
      using Some l2 b0 m rd sk sw len by (simp add: Let_def unmask_loop_xor_mask)
  qed
qed

section \<open>Complete and truncated frames\<close>

lemma read_payloadLength_no_error: "read_payloadLength buf b \<noteq> Inl e"
  by (simp add: read_payloadLength_def Let_def readUInt16BE_def readBigUInt64BE_def readUIntBE_def)

lemma parse_no_error: "\<exists>r. parseWebSocketFrame buf = Inr r"
proof (cases "read_payloadLength buf (buf ! 1)")
  case (Inl e)
  then show ?thesis using read_payloadLength_no_error by blast
next
  case (Inr r)
  then show ?thesis
    by (cases r) (auto simp add: parseWebSocketFrame_def Let_def)
qed

lemma data_loop_insufficient:
  assumes "parseWebSocketFrame buf = Inr None"
  shows "data_loop E socket buf st = (buf, st)"
  using assms by (subst data_loop.simps) simp

lemma parse_strict_prefix:
  assumes wf: "well_formed enc mk w"
    and pre: "strict_prefix buf (wire_frame b0 enc mk w)"
    and max: "length buf \<le> MAX_LENGTH"
  shows "parseWebSocketFrame buf = Inr None"
proof -
  define F where "F = wire_frame b0 enc mk w"
  define n where "n = length buf"
  have n: "n < length F" and buf: "buf = take n F"
    using pre unfolding F_def n_def
    by (auto simp add: strict_prefix_def prefix_def)
  have rd: "read_payloadLength F (F ! 1) = Inr (Some (declared_length enc (length w), header_size enc))"
    using read_payloadLength_wire_frame [OF wf, of b0 "[]"] by (simp add: F_def)
  have m: "((F ! 1) AND 0x80 \<noteq> 0) = (mk \<noteq> None)"
    using wire_frame_second(4) [OF wf, of b0 "[]"] by (simp add: F_def)
  have len: "length F = header_size enc + (case mk of None \<Rightarrow> 0 | Some k \<Rightarrow> 4) + length w"
    unfolding F_def by (rule length_wire_frame [OF wf])
  have "n < header_size enc + (case mk of None \<Rightarrow> 0 | Some k \<Rightarrow> 4) + declared_length enc (length w)"
  proof (cases "length w < 2 ^ 53")
    case True
    then have "declared_length enc (length w) = length w"
      by (simp add: declared_length_def Number_of_BigInt_small split: length_encoding.splits)
    then show ?thesis using n len by simp
  next
    case False
    then have big: "2 ^ 53 \<le> length w" by simp
    then have "enc = Len64"
      using wf by (cases enc) (simp_all add: well_formed_def)
    then have "2 ^ 53 \<le> declared_length enc (length w)"
      using Number_of_BigInt_large [OF big] by (simp add: declared_length_def)
    moreover have "n < 2 ^ 53"
      using max by (simp add: n_def MAX_LENGTH_def)
    ultimately show ?thesis by simp
  qed
  then have short: "n < (if (F ! 1) AND 0x80 \<noteq> 0 then header_size enc + 4 else header_size enc)
      + declared_length enc (length w)"
    unfolding m by (cases mk) simp_all
  show ?thesis
    unfolding buf using rd _ short by (rule parse_insufficient) (use n in simp)
qed

section \<open>Three frames for the examples\<close>

lemma writeUIntBE_2:
  "writeUIntBE 2 v = [of_nat (v div 256 mod 256), of_nat (v mod 256)]"
proof -
  have "(2::nat) = Suc (Suc 0)" by simp
  then have "writeUIntBE 2 v = writeUIntBE (Suc (Suc 0)) v" by (simp only:)
  then show ?thesis by (simp only: writeUIntBE.simps append_Nil append_Cons)
qed

lemma writeUIntBE_8:
  "writeUIntBE 8 v =
     [of_nat (v div 256 div 256 div 256 div 256 div 256 div 256 div 256 mod 256),
      of_nat (v div 256 div 256 div 256 div 256 div 256 div 256 mod 256),
      of_nat (v div 256 div 256 div 256 div 256 div 256 mod 256),
      of_nat (v div 256 div 256 div 256 div 256 mod 256),
      of_nat (v div 256 div 256 div 256 mod 256),
      of_nat (v div 256 div 256 mod 256),
      of_nat (v div 256 mod 256),
      of_nat (v mod 256)]"
proof -
  have "(8::nat) = Suc (Suc (Suc (Suc (Suc (Suc (Suc (Suc 0)))))))" by simp
  then have "writeUIntBE 8 v = writeUIntBE (Suc (Suc (Suc (Suc (Suc (Suc (Suc (Suc 0)))))))) v"
    by (simp only:)
  then show ?thesis by (simp only: writeUIntBE.simps append_Nil append_Cons)
qed

lemma wire_frame_example_16: "wire_frame 0x82 Len16 None [7, 8] = [0x82, 126, 0, 2, 7, 8]"
  by (simp add: wire_frame_def writeUIntBE_2)

lemma wire_frame_example_64: "wire_frame 0x82 Len64 (Some [1, 2, 3, 4]) [0x60, 0x60]
   = [0x82, 0xFF, 0, 0, 0, 0, 0, 0, 0, 2, 1, 2, 3, 4, 0x60, 0x60]"
  by (simp add: wire_frame_def writeUIntBE_8)

lemma xor_mask_example_2: "xor_mask [1, 2, 3, 4] [0x60, 0x60] = [0x61, 0x62]"
  by (simp add: xor_mask_def upt_conv_Cons)

lemma wire_frame_example_7:
  "wire_frame 0x81 Len7 (Some [1, 2, 3, 4]) [0x60, 0x60, 0x60]
   = [0x81, 0x83, 1, 2, 3, 4, 0x60, 0x60, 0x60]"
  by (simp add: wire_frame_def)

lemma xor_mask_example_3: "xor_mask [1, 2, 3, 4] [0x60, 0x60, 0x60] = [0x61, 0x62, 0x63]"
  by (simp add: xor_mask_def upt_conv_Cons)

section \<open>Status ingestion and the example run\<close>

lemma ingest_unknown:
  fixes E :: env and st :: gateway and d :: status_data and socket :: socket
  assumes "map_of (shadesDB st) (String_of_number (the (data_chipID d))) = None"
  defines "cid \<equiv> String_of_number (the (data_chipID d))"
  defines "rec \<equiv> ingested d (Date_now E (Suc (clock st))) (created cid (Date_now E (clock st)))"
  defines "db \<equiv> AList.update cid rec (shadesDB st)"
  shows "ingest E socket d st =
     st\<lparr>connectedShades := AList.update cid socket (connectedShades st),
        shadesDB := db,
        shadeChipID := (shadeChipID st)(socket := Some cid),
        clock := Suc (Suc (clock st)),
        effects := effects st @ [SaveData db, PublishShadeDiscovery cid rec,
                                 PublishShadeState cid (data_position d) True]\<rparr>"
  using assms(1) unfolding cid_def rec_def db_def
  by (simp add: ingest_def Let_def new_Date_def saveData_def emit_def ingested_def created_def
      AList.update_conv' AList.update_last)

lemma ingest_known:
  fixes E :: env and st :: gateway and d :: status_data and socket :: socket
  assumes "map_of (shadesDB st) (String_of_number (the (data_chipID d))) = Some s"
  defines "cid \<equiv> String_of_number (the (data_chipID d))"
  defines "rec \<equiv> ingested d (Date_now E (clock st)) s"
  defines "db \<equiv> AList.update cid rec (shadesDB st)"
  shows "ingest E socket d st =
     st\<lparr>connectedShades := AList.update cid socket (connectedShades st),
        shadesDB := db,
        shadeChipID := (shadeChipID st)(socket := Some cid),
        clock := Suc (clock st),
        effects := effects st @ [SaveData db, PublishShadeDiscovery cid rec,
                                 PublishShadeState cid (data_position d) True]\<rparr>"
  using assms(1) unfolding cid_def rec_def db_def
  by (simp add: ingest_def Let_def new_Date_def saveData_def emit_def ingested_def
      AList.update_conv')

lemma String_42: "String_of_number 42 = ''42''"
  by (simp add: String_of_number_def string_of_nat.simps)

lemma parseInt_42: "parseInt ''42'' = Some 42"
  by (simp add: parseInt_def is_digit_def digit_value_def)

lemma on_message_ingest:
  "JSON_parse E m = Data d \<Longrightarrow> truthy_number (data_chipID d) \<Longrightarrow>
   on_message E socket m st = ingest E socket d st"
  by (simp add: on_message_def)

lemma length_update_None:
  "map_of al k = None \<Longrightarrow> length (AList.update k v al) = Suc (length al)"
  by (induction al) auto

lemma length_update_Some:
  "map_of al k = Some w \<Longrightarrow> length (AList.update k v al) = length al"
  by (induction al) auto

lemma data_loop_one_frame:
  assumes "parseWebSocketFrame buf = Inr (Some f)"
    and "handle_frame E socket f st = (True, st')"
    and "length buf < totalLength f + 2"
  shows "data_loop E socket buf st = (drop (totalLength f) buf, st')"
proof -
  have "2 \<le> length buf"
    using parseWebSocketFrame_totalLength [OF assms(1)] by simp
  then have "data_loop E socket buf st = data_loop E socket (drop (totalLength f) buf) st'"
    using assms(1,2) by (subst data_loop.simps) simp
  also have "\<dots> = (drop (totalLength f) buf, st')"
  proof -
    have "\<not> 2 \<le> length (drop (totalLength f) buf)"
      using assms(3) by simp
    then show ?thesis by (subst data_loop.simps) (simp only: if_False)
  qed
  finally show ?thesis .
qed

lemma length_status_42_text: "length status_42_text = 57"
  by (simp add: status_42_text_def)

lemma parse_status_frame:
  "parseWebSocketFrame (text_frame status_42_text) =
     Inr (Some \<lparr>opcode = 1, payload = bytes_of_string status_42_text, totalLength = 59\<rparr>)"
  by (simp add: text_frame_def length_status_42_text parseWebSocketFrame_def
      read_payloadLength_def Let_def slice_def bytes_of_string_def)

lemma ingest_status_42_fresh:
  assumes "map_of (shadesDB st) ''42'' = None"
  shows "ingest E socket status_42 st =
     st\<lparr>connectedShades := AList.update ''42'' socket (connectedShades st),
        shadesDB := AList.update ''42''
          (record_42 (Date_now E (clock st)) (Date_now E (Suc (clock st)))) (shadesDB st),
        shadeChipID := (shadeChipID st)(socket := Some ''42''),
        clock := Suc (Suc (clock st)),
        effects := effects st @
          [SaveData (AList.update ''42''
             (record_42 (Date_now E (clock st)) (Date_now E (Suc (clock st)))) (shadesDB st)),
           PublishShadeDiscovery ''42''
             (record_42 (Date_now E (clock st)) (Date_now E (Suc (clock st)))),
           PublishShadeState ''42'' (Some 850) True]\<rparr>"
proof -
  have c: "String_of_number (the (data_chipID status_42)) = ''42''"
    by (simp add: status_42_def String_42)
  have r: "ingested status_42 t2 (created ''42'' t1) = record_42 t1 t2" for t1 t2
    by (simp add: ingested_def created_def record_42_def status_42_def positionToPercent_850)
  have p: "data_position status_42 = Some 850"
    by (simp add: status_42_def)
  from assms have "map_of (shadesDB st) (String_of_number (the (data_chipID status_42))) = None"
    by (simp only: c)
  from ingest_unknown [OF this, of E socket] show ?thesis
    by (simp only: c r p)
qed

lemma example_env_parse:
  "JSON_parse example_env (bytes_of_string status_42_text) = Data status_42"
  by (simp add: example_env_def)

lemma example_env_now: "Date_now example_env k = 1700000000000 + k"
  by (simp add: example_env_def)

lemma status_42_truthy: "truthy_number (data_chipID status_42)"
  by (simp add: truthy_number_def status_42_def)

lemma example_upgraded_fields:
  "connectedShades example_upgraded = []" "shadesDB example_upgraded = []"
  "upgraded example_upgraded = {7}" "destroyed example_upgraded = {}"
  "clock example_upgraded = 0" "buffers example_upgraded 7 = []"
  by (simp_all add: example_upgraded_def on_upgrade_def startup_def loadData_def
      truthy_string_def example_key_def emit_def Let_def)

lemma example_connected_eq:
  "example_connected =
     (ingest example_env 7 status_42 example_upgraded)
       \<lparr>buffers := (buffers (ingest example_env 7 status_42 example_upgraded))(7 := [])\<rparr>"
proof -
  have h: "handle_frame example_env 7
      \<lparr>opcode = 1, payload = bytes_of_string status_42_text, totalLength = 59\<rparr> example_upgraded
      = (True, ingest example_env 7 status_42 example_upgraded)"
    by (simp add: handle_frame_def on_message_def example_env_parse status_42_truthy)
  have l: "length (text_frame status_42_text) < 59 + 2"
    by (simp add: text_frame_def bytes_of_string_def length_status_42_text)
  have "data_loop example_env 7 (text_frame status_42_text) example_upgraded
      = (drop 59 (text_frame status_42_text), ingest example_env 7 status_42 example_upgraded)"
    using data_loop_one_frame [OF parse_status_frame, of example_env 7 example_upgraded] h l
    by simp
  moreover have "drop 59 (text_frame status_42_text) = []"
    by (simp add: text_frame_def bytes_of_string_def length_status_42_text)
  ultimately show ?thesis
    by (simp add: example_connected_def on_data_def example_upgraded_fields)
qed

lemma example_connected_fields:
  "connectedShades example_connected = [(''42'', 7)]"
  "shadesDB example_connected = [(''42'', record_42 1700000000000 1700000000001)]"
  "destroyed example_connected = {}"
  "upgraded example_connected = {7}"
  "shadeChipID example_connected 7 = Some ''42''"
  "clock example_connected = 2"
  by (simp_all add: example_connected_eq ingest_status_42_fresh example_upgraded_fields
      example_env_now)

lemma JSON_stringify_42_87:
  "JSON_stringify \<lparr>command_chipID = Some 42, command_value = Finite 87\<rparr> =
     ''{'' @ [DQ] @ ''chipID'' @ [DQ] @ '':42,'' @ [DQ] @ ''command'' @ [DQ] @ '':87}''"
  by (simp add: JSON_stringify_def JSON_number_def String_of_number_def string_of_nat.simps)

lemma ingest_status_42_cases:
  "\<exists>r db c. ingest E socket status_42 st =
      st\<lparr>connectedShades := AList.update ''42'' socket (connectedShades st),
         shadesDB := AList.update ''42'' r (shadesDB st),
         shadeChipID := (shadeChipID st)(socket := Some ''42''),
         clock := c,
         effects := effects st @ [SaveData db, PublishShadeDiscovery ''42'' r,
                                  PublishShadeState ''42'' (Some 850) True]\<rparr>
    \<and> currentPosition r = Some (Finite 85) \<and> online r"
proof -
  have c: "String_of_number (the (data_chipID status_42)) = ''42''"
    by (simp add: status_42_def String_42)
  have p: "data_position status_42 = Some 850"
    by (simp add: status_42_def)
  have i: "currentPosition (ingested status_42 t s) = Some (Finite 85) \<and> online (ingested status_42 t s)"
    for t s
    by (simp add: ingested_def status_42_def positionToPercent_850)
  show ?thesis
  proof (cases "map_of (shadesDB st) ''42''")
    case None
    then have "map_of (shadesDB st) (String_of_number (the (data_chipID status_42))) = None"
      by (simp only: c)
    from ingest_unknown [OF this, of E socket] i show ?thesis
      unfolding c p by blast
  next
    case (Some s)
    then have "map_of (shadesDB st) (String_of_number (the (data_chipID status_42))) = Some s"
      by (simp only: c)
    from ingest_known [OF this, of E socket] i show ?thesis
      unfolding c p by blast
  qed
qed

section \<open>Teardown and the rebound identity\<close>

lemma on_close_bound:
  assumes "socket \<in> upgraded st" and "shadeChipID st socket = Some cid" and "cid \<noteq> []"
  shows "on_close socket st =
     emit (PublishShadeState cid (Some 0) False)
       (case map_of (shadesDB st) cid of
          None \<Rightarrow> st\<lparr>destroyed := insert socket (destroyed st),
                      connectedShades := AList.delete cid (connectedShades st)\<rparr>
        | Some shade \<Rightarrow>
            saveData (st\<lparr>destroyed := insert socket (destroyed st),
                          connectedShades := AList.delete cid (connectedShades st),
                          shadesDB := AList.update cid (shade\<lparr>online := False\<rparr>) (shadesDB st)\<rparr>))"
  using assms
  by (simp add: on_close_def Let_def truthy_string_def split: option.splits)

lemma example_rebound_eq:
  "example_rebound =
     (ingest example_env 8 status_42 (on_upgrade example_env 8 (Some example_key) None example_connected))
       \<lparr>buffers := (buffers (ingest example_env 8 status_42
           (on_upgrade example_env 8 (Some example_key) None example_connected)))(8 := [])\<rparr>"
proof -
  define st where "st = on_upgrade example_env 8 (Some example_key) None example_connected"
  have up: "8 \<in> upgraded st" "buffers st 8 = []"
    by (simp_all add: st_def on_upgrade_def truthy_string_def example_key_def emit_def Let_def)
  have h: "handle_frame example_env 8
      \<lparr>opcode = 1, payload = bytes_of_string status_42_text, totalLength = 59\<rparr> st
      = (True, ingest example_env 8 status_42 st)"
    by (simp add: handle_frame_def on_message_def example_env_parse status_42_truthy)
  have l: "length (text_frame status_42_text) < 59 + 2"
    by (simp add: text_frame_def bytes_of_string_def length_status_42_text)
  have "data_loop example_env 8 (text_frame status_42_text) st
      = (drop 59 (text_frame status_42_text), ingest example_env 8 status_42 st)"
    using data_loop_one_frame [OF parse_status_frame, of example_env 8 st] h l
    by simp
  moreover have "drop 59 (text_frame status_42_text) = []"
    by (simp add: text_frame_def bytes_of_string_def length_status_42_text)
  ultimately show ?thesis
    unfolding example_rebound_def st_def [symmetric]
    by (simp add: on_data_def up)
qed

lemma example_rebound_fields:
  "connectedShades example_rebound = [(''42'', 8)]"
  "shadesDB example_rebound = [(''42'', record_42 1700000000000 1700000000002)]"
  "destroyed example_rebound = {}"
  "upgraded example_rebound = {7, 8}"
  "shadeChipID example_rebound 7 = Some ''42''"
  "shadeChipID example_rebound 8 = Some ''42''"
proof -
  define st where "st = on_upgrade example_env 8 (Some example_key) None example_connected"
  have f: "connectedShades st = [(''42'', 7)]"
    "shadesDB st = [(''42'', record_42 1700000000000 1700000000001)]"
    "destroyed st = {}" "upgraded st = {8, 7}" "shadeChipID st 7 = Some ''42''" "clock st = 2"
    by (simp_all add: st_def on_upgrade_def truthy_string_def example_key_def emit_def Let_def
        example_connected_fields)
  have c: "String_of_number (the (data_chipID status_42)) = ''42''"
    by (simp add: status_42_def String_42)
  have k: "map_of (shadesDB st) (String_of_number (the (data_chipID status_42)))
      = Some (record_42 1700000000000 1700000000001)"
    by (simp add: c f)
  have r: "ingested status_42 t (record_42 t1 t2) = record_42 t1 t" for t t1 t2
    by (simp add: ingested_def record_42_def status_42_def positionToPercent_850)
  note i = ingest_known [OF k, of example_env 8, unfolded c r]
  show "connectedShades example_rebound = [(''42'', 8)]"
    "shadesDB example_rebound = [(''42'', record_42 1700000000000 1700000000002)]"
    "destroyed example_rebound = {}"
    "upgraded example_rebound = {7, 8}"
    "shadeChipID example_rebound 7 = Some ''42''"
    "shadeChipID example_rebound 8 = Some ''42''"
    unfolding example_rebound_eq st_def [symmetric] i
    by (auto simp add: f example_env_now)
qed

section \<open>The stored flag and the map\<close>

lemma online_consistent_map_of:
  assumes "distinct (map fst (shadesDB st))"
  shows "online_consistent st \<longleftrightarrow>
     (\<forall>k s. map_of (shadesDB st) k = Some s \<longrightarrow> online s = (map_of (connectedShades st) k \<noteq> None))"
  unfolding online_consistent_def list_all_iff
  using map_of_eq_Some_iff [OF assms] by auto

lemma store_inv_cong:
  "shadesDB st' = shadesDB st \<Longrightarrow> connectedShades st' = connectedShades st \<Longrightarrow>
   store_inv st' = store_inv st"
  by (simp add: store_inv_def online_consistent_def)

lemma store_inv_emit: "store_inv (emit e st) = store_inv st"
  by (rule store_inv_cong) (simp_all add: emit_def)

lemma store_inv_sendWebSocketFrame: "store_inv (sendWebSocketFrame socket d opc st) = store_inv st"
  by (simp add: sendWebSocketFrame_def store_inv_emit)

lemma store_inv_on_upgrade: "store_inv (on_upgrade E socket key protocol st) = store_inv st"
  by (rule store_inv_cong) (simp_all add: on_upgrade_def emit_def Let_def)

lemma store_inv_api_position: "store_inv (snd (api_position CONFIG cid b st)) = store_inv st"
  by (simp add: api_position_def sendToShade_def store_inv_sendWebSocketFrame Let_def
      split: body.splits option.splits)

lemma store_inv_api_command: "store_inv (snd (api_command cid b st)) = store_inv st"
  by (simp add: api_command_def sendToShade_def store_inv_sendWebSocketFrame
      split: body.splits option.splits)

lemma store_inv_bind:
  assumes "store_inv st" and "online r"
    and "shadesDB st' = AList.update cid r (shadesDB st)"
    and "connectedShades st' = AList.update cid socket (connectedShades st)"
  shows "store_inv st'"
proof -
  from assms(1) have d: "distinct (map fst (shadesDB st))" and c: "online_consistent st"
    by (simp_all add: store_inv_def)
  have d': "distinct (map fst (shadesDB st'))"
    unfolding assms(3) using d by (rule AList.distinct_update)
  have "online_consistent st'"
    unfolding online_consistent_map_of [OF d']
    using c assms(2) unfolding online_consistent_map_of [OF d] assms(3,4)
    by (auto simp add: AList.update_conv')
  with d' show ?thesis by (simp add: store_inv_def)
qed

lemma store_inv_ingest:
  assumes "store_inv st"
  shows "store_inv (ingest E socket d st)"
proof (cases "map_of (shadesDB st) (String_of_number (the (data_chipID d)))")
  case None
  show ?thesis
    by (rule store_inv_bind [OF assms, where r = "ingested d (Date_now E (Suc (clock st)))
          (created (String_of_number (the (data_chipID d))) (Date_now E (clock st)))"
          and cid = "String_of_number (the (data_chipID d))" and socket = socket])
       (simp_all add: ingest_unknown [OF None] ingested_def)
next
  case (Some s)
  show ?thesis
    by (rule store_inv_bind [OF assms, where r = "ingested d (Date_now E (clock st)) s"
          and cid = "String_of_number (the (data_chipID d))" and socket = socket])
       (simp_all add: ingest_known [OF Some] ingested_def)
qed

lemma store_inv_on_message: "store_inv st \<Longrightarrow> store_inv (on_message E socket m st)"
  by (simp add: on_message_def store_inv_ingest split: json_result.splits)

lemma store_inv_handle_frame: "store_inv st \<Longrightarrow> store_inv (snd (handle_frame E socket f st))"
  by (simp add: handle_frame_def store_inv_emit store_inv_sendWebSocketFrame store_inv_on_message)

lemma store_inv_data_loop: "store_inv st \<Longrightarrow> store_inv (snd (data_loop E socket buf st))"
proof (induction E socket buf st rule: data_loop.induct)
  case (1 E socket buf st)
  show ?case
  proof (cases "2 \<le> length buf")
    case False
    then show ?thesis using "1.prems" by (subst data_loop.simps) simp
  next
    case True
    show ?thesis
    proof (cases "parseWebSocketFrame buf")
      case (Inl e)
      then show ?thesis using True "1.prems"
        by (subst data_loop.simps) (simp add: store_inv_emit)
    next
      case (Inr r)
      show ?thesis
      proof (cases r)
        case None
        then show ?thesis using True Inr "1.prems"
          by (subst data_loop.simps) simp
      next
        case (Some f)
        obtain continue st' where h: "handle_frame E socket f st = (continue, st')"
          by (cases "handle_frame E socket f st")
        have inv': "store_inv st'"
          using store_inv_handle_frame [OF "1.prems", of E socket f] h by simp
        show ?thesis
        proof (cases continue)
          case False
          then show ?thesis using True Inr Some h inv'
            by (subst data_loop.simps) simp
        next
          case c: True
          have "store_inv (snd (data_loop E socket (drop (totalLength f) buf) st'))"
            using "1.IH" [OF True Inr Some refl refl h [symmetric] c inv'] .
          then show ?thesis using True Inr Some h c
            by (subst data_loop.simps) simp
        qed
      qed
    qed
  qed
qed

lemma store_inv_on_data: "store_inv st \<Longrightarrow> store_inv (on_data E socket d st)"
proof -
  assume inv: "store_inv st"
  obtain buf st' where l: "data_loop E socket (buffers st socket @ d) st = (buf, st')"
    by (cases "data_loop E socket (buffers st socket @ d) st")
  have "store_inv st'"
    using store_inv_data_loop [OF inv, of E socket "buffers st socket @ d"] l by simp
  moreover have "store_inv (st'\<lparr>buffers := (buffers st')(socket := buf)\<rparr>) = store_inv st'"
    by (rule store_inv_cong) simp_all
  ultimately show ?thesis using inv l by (simp add: on_data_def)
qed

lemma store_inv_unbind:
  assumes "store_inv st"
    and "map_of (shadesDB st) cid = Some s"
    and "shadesDB st' = AList.update cid (s\<lparr>online := False\<rparr>) (shadesDB st)"
    and "connectedShades st' = AList.delete cid (connectedShades st)"
  shows "store_inv st'"
proof -
  from assms(1) have d: "distinct (map fst (shadesDB st))" and c: "online_consistent st"
    by (simp_all add: store_inv_def)
  have d': "distinct (map fst (shadesDB st'))"
    unfolding assms(3) using d by (rule AList.distinct_update)
  have "online_consistent st'"
    unfolding online_consistent_map_of [OF d']
    using c unfolding online_consistent_map_of [OF d] assms(3,4)
    by (auto simp add: AList.update_conv' AList.delete_conv')
  with d' show ?thesis by (simp add: store_inv_def)
qed

lemma store_inv_unbind_unknown:
  assumes "store_inv st"
    and "map_of (shadesDB st) cid = None"
    and "shadesDB st' = shadesDB st"
    and "connectedShades st' = AList.delete cid (connectedShades st)"
  shows "store_inv st'"
proof -
  from assms(1) have d: "distinct (map fst (shadesDB st))" and c: "online_consistent st"
    by (simp_all add: store_inv_def)
  have d': "distinct (map fst (shadesDB st'))"
    unfolding assms(3) using d .
  have "online_consistent st'"
    unfolding online_consistent_map_of [OF d']
    using c assms(2) unfolding online_consistent_map_of [OF d] assms(3,4)
    by (auto simp add: AList.delete_conv')
  with d' show ?thesis by (simp add: store_inv_def)
qed

lemma store_inv_on_close:
  assumes "store_inv st"
  shows "store_inv (on_close socket st)"
proof (cases "socket \<in> upgraded st \<and> truthy_string (shadeChipID st socket)")
  case False
  have "store_inv (on_close socket st) = store_inv st"
    by (rule store_inv_cong) (use False in \<open>auto simp add: on_close_def Let_def\<close>)
  with assms show ?thesis by simp
next
  case True
  then obtain cid where b: "socket \<in> upgraded st" "shadeChipID st socket = Some cid" "cid \<noteq> []"
    by (auto simp add: truthy_string_def split: option.splits)
  show ?thesis
  proof (cases "map_of (shadesDB st) cid")
    case None
    show ?thesis
      by (rule store_inv_unbind_unknown [OF assms None])
         (simp_all add: on_close_bound [OF b] None emit_def)
  next
    case (Some s)
    show ?thesis
      by (rule store_inv_unbind [OF assms Some])
         (simp_all add: on_close_bound [OF b] Some emit_def saveData_def)
  qed
qed

lemma store_inv_step: "store_inv st \<Longrightarrow> store_inv (step CONFIG E ev st)"
  by (cases ev)
     (simp_all add: step_def store_inv_on_upgrade store_inv_on_data store_inv_on_close
        store_inv_api_position store_inv_api_command store_inv_sendWebSocketFrame)

lemma store_inv_run: "store_inv st \<Longrightarrow> store_inv (run CONFIG E evs st)"
  by (induction evs arbitrary: st) (simp_all add: store_inv_step)

lemma store_inv_startup_None: "store_inv (startup None)"
  by (simp add: store_inv_def online_consistent_def startup_def loadData_def)

lemma store_inv_startup_offline:
  assumes "distinct (map fst db)" and "list_all (\<lambda>(k, s). \<not> online s) db"
  shows "store_inv (startup (Some db))"
proof -
  have "list_all (\<lambda>(k, s). online s = (map_of [] k \<noteq> (None :: socket option))) db"
    using assms(2) by (simp add: list_all_iff case_prod_unfold)
  with assms(1) show ?thesis
    by (simp add: store_inv_def online_consistent_def startup_def loadData_def)
qed

lemma api_shades_online:
  "list_all (\<lambda>s. online s = (map_of (connectedShades st) (chipID s) \<noteq> None)) (api_shades st)"
  by (simp add: api_shades_def list_all_iff)

lemma run_example_connected:
  "run default_CONFIG example_env
     [Ev_upgrade 7 (Some example_key) None, Ev_data 7 (text_frame status_42_text)] (startup None)
   = example_connected"
  by (simp add: step_def example_connected_def example_upgraded_def)

section \<open>Claims\<close>

text \<open>
  C1 (as amended). The claim: tearing down a session whose identity has been rebound to
  a newer session leaves the newer entry of \<^verbatim>\<open>connectedShades\<close> and the record's
  \<^verbatim>\<open>online\<close> flag unchanged, the binding being removed only when the map still maps
  the identity to the session torn down. What holds: the close handler of a session
  that has bound an identity removes that identity from \<^verbatim>\<open>connectedShades\<close> and sets
  the \<^verbatim>\<open>online\<close> flag of its record to false, whichever socket the map holds for the
  identity at that moment; the entries and records of every other identity are
  unchanged.
\<close>

theorem C1_teardown_unconditional:
  assumes "socket \<in> upgraded st" and "shadeChipID st socket = Some cid" and "cid \<noteq> []"
  shows "map_of (connectedShades (on_close socket st)) = (map_of (connectedShades st))(cid := None)
       \<and> map_of (shadesDB (on_close socket st)) cid
           = map_option (\<lambda>s. s\<lparr>online := False\<rparr>) (map_of (shadesDB st) cid)
       \<and> (\<forall>k. k \<noteq> cid \<longrightarrow> map_of (shadesDB (on_close socket st)) k = map_of (shadesDB st) k)"
  unfolding on_close_bound [OF assms]
  by (cases "map_of (shadesDB st) cid")
     (simp_all add: emit_def saveData_def AList.delete_conv' AList.update_conv')

text \<open>The theorem in the example run: socket 7, the only session of identity 42, closes.\<close>

theorem C1_teardown_unconditional_witness:
  "map_of (connectedShades (on_close 7 example_connected)) ''42'' = None
   \<and> map_option online (map_of (shadesDB (on_close 7 example_connected)) ''42'') = Some False"
  using C1_teardown_unconditional [of 7 example_connected "''42''"]
  by (simp add: example_connected_fields)

text \<open>
  The claim fails in the example run: identity 42 is bound to the newer socket 8, which
  stays open, and the close of the superseded socket 7 removes the entry of socket 8 and
  sets the record offline.
\<close>

theorem C1_stale_teardown_counterexample:
  "map_of (connectedShades example_rebound) ''42'' = Some 8
   \<and> 8 \<notin> destroyed (on_close 7 example_rebound)
   \<and> map_of (connectedShades (on_close 7 example_rebound)) ''42'' = None
   \<and> map_option online (map_of (shadesDB example_rebound) ''42'') = Some True
   \<and> map_option online (map_of (shadesDB (on_close 7 example_rebound)) ''42'') = Some False"
proof -
  have b: "on_close 7 example_rebound =
     emit (PublishShadeState ''42'' (Some 0) False)
       (saveData (example_rebound\<lparr>destroyed := insert 7 (destroyed example_rebound),
          connectedShades := AList.delete ''42'' (connectedShades example_rebound),
          shadesDB := AList.update ''42'' ((record_42 1700000000000 1700000000002)\<lparr>online := False\<rparr>)
             (shadesDB example_rebound)\<rparr>))"
    using on_close_bound [of 7 example_rebound "''42''"]
    by (simp add: example_rebound_fields)
  show ?thesis
    unfolding b by (simp add: example_rebound_fields emit_def saveData_def record_42_def)
qed

text \<open>
  C2 (as amended). The claim: for every integer \<open>p\<close> with \<open>0 \<le> p \<le> 100\<close> and every calibration
  pair of integers with \<open>max > min\<close>,
  \<open>commandToPercent (percentToCommand p)\<close> differs from \<open>p\<close> by at most 1. What holds:
  for a calibration pair with \<open>max > min\<close> whose two values are at most \<open>2 ^ 44\<close> in
  magnitude, the round trip is an integer \<open>q\<close> with
  \<open>\<bar>q - p\<bar> \<le> 1/2 + 50 / (max - min)\<close>, which is within 1 of \<open>p\<close> once
  \<open>max - min \<ge> 34\<close>. (For such pairs no operator of the two functions rounds its
  result across a tie; \<open>round_trip_2_54\<close> shows a pair beyond \<open>2 ^ 53\<close> with
  range 100 where 2 percent comes back as 0.)
\<close>

theorem C2_round_trip_bound:
  assumes "0 \<le> p" and "p \<le> 100" and "SHADE_MIN C < SHADE_MAX C"
    and "\<bar>SHADE_MIN C\<bar> \<le> 2 ^ 44" and "\<bar>SHADE_MAX C\<bar> \<le> 2 ^ 44"
  shows "\<exists>q. commandToPercent C (percentToCommand C p) = Finite (of_int q)
           \<and> 2 * (SHADE_MAX C - SHADE_MIN C) * \<bar>q - p\<bar> \<le> (SHADE_MAX C - SHADE_MIN C) + 100
           \<and> (34 \<le> SHADE_MAX C - SHADE_MIN C \<longrightarrow> \<bar>q - p\<bar> \<le> 1)"
proof -
  define r where "r = SHADE_MAX C - SHADE_MIN C"
  define k where "k = (2 * (p * r) + 100) div 200"
  define q where "q = (2 * (k * 100) + r) div (2 * r)"
  have r0: "0 < r" using assms(3) by (simp add: r_def)
  have "0 \<le> p * r" using assms(1) r0 by simp
  then have k0: "0 \<le> k" unfolding k_def by (simp add: pos_imp_zdiv_nonneg_iff)
  have "p * r \<le> 100 * r" using assms(2) r0 by simp
  then have "2 * (p * r) + 100 < 200 * (r + 1)" by simp
  then have "k < r + 1" unfolding k_def by (simp add: div_less_iff_less_mult)
  with k0 have kr: "\<bar>k\<bar> \<le> SHADE_MAX C - SHADE_MIN C" by (simp add: r_def)
  have cmd: "percentToCommand C p = Finite (of_int (SHADE_MIN C + k))"
    using percentToCommand_int [OF assms(4,5), of p] assms(1,2) by (simp add: k_def r_def)
  have rev: "commandToPercent C (Finite (of_int (SHADE_MIN C + k))) = Finite (of_int q)"
    using commandToPercent_int [OF assms(4,5,3) kr] by (simp add: q_def r_def)
  have bound: "2 * r * \<bar>q - p\<bar> \<le> r + 100"
    unfolding q_def k_def by (rule round_trip_int [OF r0])
  have "34 \<le> r \<longrightarrow> \<bar>q - p\<bar> \<le> 1"
    using bound by (auto intro: round_trip_within_1)
  with cmd rev bound show ?thesis
    unfolding r_def by auto
qed

text \<open>The theorem at the calibration \<open>(0, 100)\<close>, where the round trip of 50 is 50.\<close>

theorem C2_round_trip_witness:
  "\<exists>q. commandToPercent \<lparr>SHADE_MIN = 0, SHADE_MAX = 100\<rparr>
          (percentToCommand \<lparr>SHADE_MIN = 0, SHADE_MAX = 100\<rparr> 50) = Finite (of_int q)
        \<and> \<bar>q - 50\<bar> \<le> 1"
  using C2_round_trip_bound [of 50 "\<lparr>SHADE_MIN = 0, SHADE_MAX = 100\<rparr>"] by auto

text \<open>
  The claim fails at the default calibration \<open>(73, 100)\<close>: 2 percent becomes the
  command \<open>round 73.54 = 74\<close>, which reads back as \<open>round (100 / 27) = 4\<close>.
\<close>

theorem C2_default_calibration_counterexample:
  "percentToCommand default_CONFIG 2 = Finite 74
   \<and> commandToPercent default_CONFIG (percentToCommand default_CONFIG 2) = Finite 4
   \<and> \<not> \<bar>(4::int) - 2\<bar> \<le> 1"
proof -
  have a: "percentToCommand default_CONFIG 2 = Finite 74"
    using percentToCommand_int [of default_CONFIG 2] by (simp add: default_CONFIG_def)
  have "commandToPercent default_CONFIG (Finite (of_int (SHADE_MIN default_CONFIG + 1))) = Finite 4"
    using commandToPercent_int [of default_CONFIG 1] by (simp add: default_CONFIG_def)
  then have "commandToPercent default_CONFIG (Finite 74) = Finite 4"
    by (simp add: default_CONFIG_def)
  with a show ?thesis by simp
qed

text \<open>
  C3. A buffer (of a length a \<^verbatim>\<open>Buffer\<close> can have) that begins with one complete frame
  - any first byte, the payload length \<open>L\<close> in the 7-bit field, in the 16-bit or in
  the 64-bit extended field, with or without a 4-byte mask key - decodes to a message
  whose \<^verbatim>\<open>totalLength\<close> is the header size, plus 4 for a mask key, plus \<open>L\<close>, whose
  opcode is the low nibble of the first byte, and whose payload is the payload on the
  wire, combined byte by byte with the mask key, used cyclically, when the frame is
  masked; a payload that the sender masked with that key is recovered as it was.
\<close>

theorem C3_decode_complete_frame:
  assumes "well_formed enc mask_key wire"
    and "length (wire_frame b0 enc mask_key wire @ rest) \<le> MAX_LENGTH"
  shows "parseWebSocketFrame (wire_frame b0 enc mask_key wire @ rest) =
           Inr (Some \<lparr>opcode = b0 AND 0x0F,
                      payload = (case mask_key of None \<Rightarrow> wire | Some k \<Rightarrow> xor_mask k wire),
                      totalLength = header_size enc
                        + (case mask_key of None \<Rightarrow> 0 | Some k \<Rightarrow> 4) + length wire\<rparr>)
       \<and> (\<forall>k plain. mask_key = Some k \<and> wire = xor_mask k plain \<longrightarrow>
            (\<exists>f. parseWebSocketFrame (wire_frame b0 enc mask_key wire @ rest) = Inr (Some f)
                \<and> payload f = plain))"
proof -
  have "length wire \<le> length (wire_frame b0 enc mask_key wire @ rest)"
    by (simp add: length_wire_frame [OF assms(1)])
  with assms(2) have small: "length wire < 2 ^ 53"
    by (simp add: MAX_LENGTH_def)
  note p = parse_wire_frame [OF assms(1) small, of b0 rest]
  show ?thesis
    unfolding p by (auto simp add: xor_mask_involution)
qed

text \<open>
  The theorem for a masked frame with a 7-bit length followed by one more byte, an
  unmasked frame with a 16-bit length, and a masked frame with a 64-bit length.
\<close>

theorem C3_decode_complete_frame_witness:
  "parseWebSocketFrame [0x81, 0x83, 1, 2, 3, 4, 0x60, 0x60, 0x60, 0xFF] =
     Inr (Some \<lparr>opcode = 1, payload = [0x61, 0x62, 0x63], totalLength = 9\<rparr>)
   \<and> parseWebSocketFrame [0x82, 126, 0, 2, 7, 8] =
     Inr (Some \<lparr>opcode = 2, payload = [7, 8], totalLength = 6\<rparr>)
   \<and> parseWebSocketFrame [0x82, 0xFF, 0, 0, 0, 0, 0, 0, 0, 2, 1, 2, 3, 4, 0x60, 0x60] =
     Inr (Some \<lparr>opcode = 2, payload = [0x61, 0x62], totalLength = 16\<rparr>)"
proof -
  have "parseWebSocketFrame [0x81, 0x83, 1, 2, 3, 4, 0x60, 0x60, 0x60, 0xFF] =
     Inr (Some \<lparr>opcode = 1, payload = [0x61, 0x62, 0x63], totalLength = 9\<rparr>)"
    using C3_decode_complete_frame [of Len7 "Some [1, 2, 3, 4]" "[0x60, 0x60, 0x60]" "0x81" "[0xFF]"]
    by (simp add: wire_frame_example_7 xor_mask_example_3 well_formed_def MAX_LENGTH_def
        header_size_def)
  moreover have "parseWebSocketFrame [0x82, 126, 0, 2, 7, 8] =
     Inr (Some \<lparr>opcode = 2, payload = [7, 8], totalLength = 6\<rparr>)"
    using C3_decode_complete_frame [of Len16 None "[7, 8]" "0x82" "[]"]
    by (simp add: wire_frame_example_16 well_formed_def MAX_LENGTH_def header_size_def)
  moreover have "parseWebSocketFrame [0x82, 0xFF, 0, 0, 0, 0, 0, 0, 0, 2, 1, 2, 3, 4, 0x60, 0x60] =
     Inr (Some \<lparr>opcode = 2, payload = [0x61, 0x62], totalLength = 16\<rparr>)"
    using C3_decode_complete_frame [of Len64 "Some [1, 2, 3, 4]" "[0x60, 0x60]" "0x82" "[]"]
    by (simp add: wire_frame_example_64 xor_mask_example_2 well_formed_def MAX_LENGTH_def
        header_size_def)
  ultimately show ?thesis by blast
qed

text \<open>
  C4. A buffer that is a proper prefix of a frame - the payload, the extended length
  field or the mask key not yet complete, or fewer than 2 bytes - makes the parser
  return \<^verbatim>\<open>null\<close>: no exception, and nothing consumed, for the read loop returns the
  buffer as it is and the data handler only appends the new bytes to it. A buffer of
  fewer than 2 bytes always gives \<^verbatim>\<open>null\<close>. Parsing the buffer again after more bytes
  have arrived never throws, and returns the frame once the frame is complete.
\<close>

theorem C4_decode_incomplete_frame:
  assumes "well_formed enc mask_key wire"
    and "strict_prefix buf (wire_frame b0 enc mask_key wire)"
    and "length buf \<le> MAX_LENGTH"
  shows "parseWebSocketFrame buf = Inr None
       \<and> data_loop E socket buf st = (buf, st)
       \<and> (\<forall>d. socket \<in> upgraded st \<and> buffers st socket @ d = buf \<longrightarrow>
             on_data E socket d st = st\<lparr>buffers := (buffers st)(socket := buf)\<rparr>)
       \<and> (\<forall>b. length b < 2 \<longrightarrow> parseWebSocketFrame b = Inr None)
       \<and> (\<forall>more. \<exists>r. parseWebSocketFrame (buf @ more) = Inr r)
       \<and> (\<forall>more rest. buf @ more = wire_frame b0 enc mask_key wire @ rest
              \<and> length (buf @ more) \<le> MAX_LENGTH \<longrightarrow>
             parseWebSocketFrame (buf @ more) =
               Inr (Some \<lparr>opcode = b0 AND 0x0F,
                          payload = (case mask_key of None \<Rightarrow> wire | Some k \<Rightarrow> xor_mask k wire),
                          totalLength = length (wire_frame b0 enc mask_key wire)\<rparr>))"
proof -
  have none: "parseWebSocketFrame buf = Inr None"
    using assms by (rule parse_strict_prefix)
  have loop: "data_loop E socket buf st = (buf, st)" for E socket st
    using none by (rule data_loop_insufficient)
  have dat: "on_data E socket d st = st\<lparr>buffers := (buffers st)(socket := buf)\<rparr>"
    if "socket \<in> upgraded st" and "buffers st socket @ d = buf" for d
    using that loop [of E socket st] by (simp add: on_data_def)
  have short: "parseWebSocketFrame b = Inr None" if "length b < 2" for b
    using that by (simp add: parseWebSocketFrame_def)
  have full: "parseWebSocketFrame (buf @ more) =
               Inr (Some \<lparr>opcode = b0 AND 0x0F,
                          payload = (case mask_key of None \<Rightarrow> wire | Some k \<Rightarrow> xor_mask k wire),
                          totalLength = length (wire_frame b0 enc mask_key wire)\<rparr>)"
    if "buf @ more = wire_frame b0 enc mask_key wire @ rest" and "length (buf @ more) \<le> MAX_LENGTH"
    for more rest
  proof -
    have "length wire \<le> length (wire_frame b0 enc mask_key wire @ rest)"
      by (simp add: length_wire_frame [OF assms(1)])
    with that have small: "length wire < 2 ^ 53"
      by (simp add: MAX_LENGTH_def)
    show ?thesis
      unfolding that(1) parse_wire_frame [OF assms(1) small, of b0 rest]
      by (simp add: length_wire_frame [OF assms(1)])
  qed
  from none loop dat short parse_no_error full show ?thesis by blast
qed

text \<open>
  The theorem for the three frames above cut short: inside the payload, inside the
  16-bit length field, inside the mask key, and after the first byte.
\<close>

theorem C4_decode_incomplete_frame_witness:
  "parseWebSocketFrame [0x81, 0x83, 1, 2, 3, 4, 0x60, 0x60] = Inr None
   \<and> parseWebSocketFrame [0x82, 126, 0] = Inr None
   \<and> parseWebSocketFrame [0x82, 0xFF, 0, 0, 0, 0, 0, 0, 0, 2, 1, 2] = Inr None
   \<and> parseWebSocketFrame [0x81] = Inr None
   \<and> data_loop example_env 7 [0x81, 0x83, 1, 2, 3, 4, 0x60, 0x60] example_upgraded
       = ([0x81, 0x83, 1, 2, 3, 4, 0x60, 0x60], example_upgraded)"
proof -
  have p1: "strict_prefix [0x81, 0x83, 1, 2, 3, 4, 0x60, 0x60 :: byte]
      (wire_frame 0x81 Len7 (Some [1, 2, 3, 4]) [0x60, 0x60, 0x60])"
    unfolding wire_frame_example_7 by (simp add: strict_prefix_def)
  have p2: "strict_prefix [0x82, 126, 0 :: byte] (wire_frame 0x82 Len16 None [7, 8])"
    unfolding wire_frame_example_16 by (simp add: strict_prefix_def)
  have p3: "strict_prefix [0x82, 0xFF, 0, 0, 0, 0, 0, 0, 0, 2, 1, 2 :: byte]
      (wire_frame 0x82 Len64 (Some [1, 2, 3, 4]) [0x60, 0x60])"
    unfolding wire_frame_example_64 by (simp add: strict_prefix_def)
  have p4: "strict_prefix [0x81 :: byte] (wire_frame 0x81 Len7 (Some [1, 2, 3, 4]) [0x60, 0x60, 0x60])"
    unfolding wire_frame_example_7 by (simp add: strict_prefix_def)
  have w1: "well_formed Len7 (Some [1, 2, 3, 4]) [0x60, 0x60, 0x60]"
    and w2: "well_formed Len16 None [7, 8]"
    and w3: "well_formed Len64 (Some [1, 2, 3, 4]) [0x60, 0x60]"
    by (simp_all add: well_formed_def)
  have "parseWebSocketFrame [0x81, 0x83, 1, 2, 3, 4, 0x60, 0x60] = Inr None
      \<and> data_loop example_env 7 [0x81, 0x83, 1, 2, 3, 4, 0x60, 0x60] example_upgraded
       = ([0x81, 0x83, 1, 2, 3, 4, 0x60, 0x60], example_upgraded)"
    using C4_decode_incomplete_frame [OF w1 p1, of example_env 7 example_upgraded]
    by (simp add: MAX_LENGTH_def)
  moreover have "parseWebSocketFrame [0x82, 126, 0] = Inr None"
    using C4_decode_incomplete_frame [OF w2 p2] by (simp add: MAX_LENGTH_def)
  moreover have "parseWebSocketFrame [0x82, 0xFF, 0, 0, 0, 0, 0, 0, 0, 2, 1, 2] = Inr None"
    using C4_decode_incomplete_frame [OF w3 p3] by (simp add: MAX_LENGTH_def)
  moreover have "parseWebSocketFrame [0x81] = Inr None"
    using C4_decode_incomplete_frame [OF w1 p4] by (simp add: MAX_LENGTH_def)
  ultimately show ?thesis by blast
qed

text \<open>
  C5. The status message \<^verbatim>\<open>{"chipID":42,"position":850,"model":"wired","version":24}\<close>,
  received on a socket that is not destroyed, leaves a record of identity 42 with
  \<^verbatim>\<open>currentPosition = 85\<close> and \<^verbatim>\<open>online = true\<close>. Under the default calibration
  \<open>(73, 100)\<close> the request to set 50 percent then computes the command
  \<open>round (73 + 50 * 27 / 100) = 87\<close>, answers \<^verbatim>\<open>sent\<close>, and writes to that socket one
  unmasked text frame with the 26 bytes \<^verbatim>\<open>{"chipID":42,"command":87}\<close>.
\<close>

theorem C5_status_then_setPercent:
  fixes E :: env and st :: gateway and socket :: socket and m :: bytes
  assumes "JSON_parse E m = Data status_42" and "socket \<notin> destroyed st"
  defines "st1 \<equiv> on_message E socket m st"
  shows "(\<exists>r. map_of (shadesDB st1) ''42'' = Some r \<and> currentPosition r = Some (Finite 85) \<and> online r)
       \<and> percentToCommand default_CONFIG 50 = Finite 87
       \<and> api_position default_CONFIG ''42'' (Body 50) st1 =
           (Sent_position ''42'' 50 (Finite 87),
            emit (SocketWrite socket
                    ([0x81, 26] @ bytes_of_string
                       (''{'' @ [DQ] @ ''chipID'' @ [DQ] @ '':42,'' @ [DQ] @ ''command'' @ [DQ] @ '':87}'')))
              st1)"
proof -
  have eq: "st1 = ingest E socket status_42 st"
    unfolding st1_def using assms(1) status_42_truthy by (rule on_message_ingest)
  obtain r db c where
    ing: "ingest E socket status_42 st =
      st\<lparr>connectedShades := AList.update ''42'' socket (connectedShades st),
         shadesDB := AList.update ''42'' r (shadesDB st),
         shadeChipID := (shadeChipID st)(socket := Some ''42''),
         clock := c,
         effects := effects st @ [SaveData db, PublishShadeDiscovery ''42'' r,
                                  PublishShadeState ''42'' (Some 850) True]\<rparr>"
    and r: "currentPosition r = Some (Finite 85)" "online r"
    using ingest_status_42_cases by blast
  have rec: "map_of (shadesDB st1) ''42'' = Some r"
    unfolding eq ing by (simp add: AList.update_conv')
  have bound: "map_of (connectedShades st1) ''42'' = Some socket"
    unfolding eq ing by (simp add: AList.update_conv')
  have live: "socket \<notin> destroyed st1"
    unfolding eq ing using assms(2) by simp
  have cmd: "percentToCommand default_CONFIG 50 = Finite 87"
    using percentToCommand_int [of default_CONFIG 50] by (simp add: default_CONFIG_def)
  have fr: "frame_of (bytes_of_string (JSON_stringify \<lparr>command_chipID = Some 42, command_value = Finite 87\<rparr>)) 1
      = [0x81, 26] @ bytes_of_string
          (''{'' @ [DQ] @ ''chipID'' @ [DQ] @ '':42,'' @ [DQ] @ ''command'' @ [DQ] @ '':87}'')"
    unfolding JSON_stringify_42_87 by (simp add: frame_of_def bytes_of_string_def)
  have "api_position default_CONFIG ''42'' (Body 50) st1 =
      (Sent_position ''42'' 50 (Finite 87),
       emit (SocketWrite socket
          (frame_of (bytes_of_string (JSON_stringify \<lparr>command_chipID = Some 42, command_value = Finite 87\<rparr>)) 1))
         st1)"
    using bound live
    by (simp add: api_position_def Let_def cmd parseInt_42 sendToShade_def sendWebSocketFrame_def)
  with rec r cmd show ?thesis
    unfolding fr by blast
qed

text \<open>The theorem in the example run: socket 7 after its handshake.\<close>

theorem C5_status_then_setPercent_witness:
  "(\<exists>r. map_of (shadesDB (on_message example_env 7 (bytes_of_string status_42_text) example_upgraded))
           ''42'' = Some r \<and> currentPosition r = Some (Finite 85) \<and> online r)
   \<and> fst (api_position default_CONFIG ''42'' (Body 50)
        (on_message example_env 7 (bytes_of_string status_42_text) example_upgraded))
      = Sent_position ''42'' 50 (Finite 87)"
  using C5_status_then_setPercent [where E = example_env and m = "bytes_of_string status_42_text" and socket = 7
      and st = example_upgraded]
  by (simp add: example_env_parse example_upgraded_fields)

text \<open>
  C6 (as amended). The claim: the first status message of an unknown identity creates
  exactly one record whose \<^verbatim>\<open>firstSeen\<close> equals its \<^verbatim>\<open>lastSeen\<close>; a later one leaves
  \<^verbatim>\<open>firstSeen\<close> unchanged and advances \<^verbatim>\<open>lastSeen\<close>. What holds: the first message
  adds exactly one record; its \<^verbatim>\<open>firstSeen\<close> is the clock read at line 478 and its
  \<^verbatim>\<open>lastSeen\<close> the next clock read, at line 483, so that the two are equal exactly
  when the clock did not move between the two reads. A message of a known identity adds
  no record, keeps \<^verbatim>\<open>firstSeen\<close> and sets \<^verbatim>\<open>lastSeen\<close> to the clock read of that
  message.
\<close>

theorem C6_first_and_later_ingest:
  fixes E :: env and st :: gateway and d :: status_data and socket :: socket
  assumes "JSON_parse E m = Data d" and "truthy_number (data_chipID d)"
  defines "cid \<equiv> String_of_number (the (data_chipID d))"
  defines "st' \<equiv> on_message E socket m st"
  shows "(map_of (shadesDB st) cid = None \<longrightarrow>
            length (shadesDB st') = Suc (length (shadesDB st))
          \<and> (\<forall>k. k \<noteq> cid \<longrightarrow> map_of (shadesDB st') k = map_of (shadesDB st) k)
          \<and> (\<exists>r. map_of (shadesDB st') cid = Some r
                \<and> firstSeen r = Date_now E (clock st)
                \<and> lastSeen r = Some (Date_now E (Suc (clock st)))))
       \<and> (\<forall>s. map_of (shadesDB st) cid = Some s \<longrightarrow>
            length (shadesDB st') = length (shadesDB st)
          \<and> (\<forall>k. k \<noteq> cid \<longrightarrow> map_of (shadesDB st') k = map_of (shadesDB st) k)
          \<and> (\<exists>r. map_of (shadesDB st') cid = Some r
                \<and> firstSeen r = firstSeen s
                \<and> lastSeen r = Some (Date_now E (clock st))))"
proof -
  have eq: "st' = ingest E socket d st"
    unfolding st'_def using assms(1,2) by (rule on_message_ingest)
  have unknown: "map_of (shadesDB st) cid = None \<Longrightarrow> ?thesis"
    unfolding eq cid_def
    by (simp add: ingest_unknown AList.update_conv' length_update_None ingested_def created_def)
  have known: "\<And>s. map_of (shadesDB st) cid = Some s \<Longrightarrow> ?thesis"
    unfolding eq cid_def
    by (simp add: ingest_known AList.update_conv' length_update_Some ingested_def)
  show ?thesis
    using unknown known by (cases "map_of (shadesDB st) cid") auto
qed

text \<open>
  The theorem in the example run: the first message of identity 42 on socket 7, and a
  second one in the state that the first one left.
\<close>

theorem C6_first_and_later_ingest_witness:
  "length (shadesDB (on_message example_env 7 (bytes_of_string status_42_text) example_upgraded))
     = Suc (length (shadesDB example_upgraded))
   \<and> (\<exists>r. map_of (shadesDB (on_message example_env 7 (bytes_of_string status_42_text)
                example_connected)) ''42'' = Some r
          \<and> firstSeen r = 1700000000000 \<and> lastSeen r = Some 1700000000002)"
proof -
  have c: "String_of_number (the (data_chipID status_42)) = ''42''"
    by (simp add: status_42_def String_42)
  have "length (shadesDB (on_message example_env 7 (bytes_of_string status_42_text) example_upgraded))
      = Suc (length (shadesDB example_upgraded))"
    using C6_first_and_later_ingest [OF example_env_parse status_42_truthy, where socket = 7 and st = example_upgraded]
    by (simp add: c example_upgraded_fields)
  moreover have "\<exists>r. map_of (shadesDB (on_message example_env 7 (bytes_of_string status_42_text)
                example_connected)) ''42'' = Some r
          \<and> firstSeen r = 1700000000000 \<and> lastSeen r = Some 1700000000002"
    using C6_first_and_later_ingest [OF example_env_parse status_42_truthy, where socket = 7 and st = example_connected]
    by (simp add: c example_connected_fields example_env_now record_42_def)
  ultimately show ?thesis by blast
qed

text \<open>
  The claim fails when the clock moves between the two reads of the first message: in
  the example run \<^verbatim>\<open>firstSeen\<close> is one millisecond before \<^verbatim>\<open>lastSeen\<close>.
\<close>

theorem C6_firstSeen_lastSeen_counterexample:
  "map_option firstSeen (map_of (shadesDB example_connected) ''42'') = Some 1700000000000
   \<and> map_option lastSeen (map_of (shadesDB example_connected) ''42'') = Some (Some 1700000000001)
   \<and> Some (1700000000000 :: nat) \<noteq> Some 1700000000001"
  by (simp add: example_connected_fields record_42_def)

text \<open>
  C7. For an identity with no entry in \<^verbatim>\<open>connectedShades\<close>, the request to set a
  percentage and the request to send a raw command both answer \<^verbatim>\<open>{status: "offline"}\<close>
  with status 200 and leave the whole state as it was: nothing is written to any
  socket, and the map and the record store are unchanged.
\<close>

theorem C7_offline_dispatch:
  assumes "map_of (connectedShades st) cid = None"
  shows "api_position CONFIG cid (Body position) st = (Offline cid, st)
       \<and> api_command cid (Body command) st = (Offline cid, st)"
  using assms by (simp add: api_position_def api_command_def)

text \<open>The theorem in the example run, for identity 43, which never connected.\<close>

theorem C7_offline_dispatch_witness:
  "api_position default_CONFIG ''43'' (Body 50) example_connected = (Offline ''43'', example_connected)
   \<and> api_command ''43'' (Body 87) example_connected = (Offline ''43'', example_connected)"
proof -
  have "map_of (connectedShades example_connected) ''43'' = None"
    by (simp add: example_connected_fields)
  then show ?thesis by (rule C7_offline_dispatch)
qed

text \<open>
  C8 (as amended). The claim: in every reachable state, the state after loading a
  persisted store included, a record's \<^verbatim>\<open>online\<close> field is true if and only if
  \<^verbatim>\<open>connectedShades\<close> holds a socket for the record's identity. What holds: the stored
  flags agree with the map after every sequence of events from a state where they
  agree (and the store has one record for a key), in particular from the empty store
  and from a loaded store in which no record is flagged online; and the list that \<^verbatim>\<open>GET /api/shades\<close> returns reports
  \<^verbatim>\<open>online\<close> exactly for the records whose identity the map holds, in every state.
  A store loaded at startup keeps the flags it was saved with.
\<close>

theorem C8_online_consistency:
  "(store_inv st0 \<longrightarrow> store_inv (run CONFIG E evs st0))
   \<and> store_inv (startup None)
   \<and> (distinct (map fst db) \<and> list_all (\<lambda>(k, s). \<not> online s) db \<longrightarrow> store_inv (startup (Some db)))
   \<and> list_all (\<lambda>s. online s = (map_of (connectedShades st) (chipID s) \<noteq> None)) (api_shades st)"
  using store_inv_run store_inv_startup_None store_inv_startup_offline api_shades_online
  by blast

text \<open>The theorem in the example run, where identity 42 is connected on socket 7.\<close>

theorem C8_online_consistency_witness:
  "online_consistent example_connected
   \<and> map_option online (map_of (shadesDB example_connected) ''42'') = Some True
   \<and> map_of (connectedShades example_connected) ''42'' = Some 7
   \<and> list_all (\<lambda>s. online s = (map_of (connectedShades example_connected) (chipID s) \<noteq> None))
        (api_shades example_connected)"
  using C8_online_consistency [where ?st0.0 = "startup None" and CONFIG = default_CONFIG
      and E = example_env and st = example_connected and db = "[]"
      and evs = "[Ev_upgrade 7 (Some example_key) None, Ev_data 7 (text_frame status_42_text)]"]
  unfolding run_example_connected
  by (simp add: store_inv_def example_connected_fields record_42_def)

text \<open>
  The claim fails after a restart: the snapshot that \<^verbatim>\<open>saveData\<close> wrote while identity
  42 was connected flags the record online, and \<^verbatim>\<open>loadData\<close> loads it into a process
  whose map is empty.
\<close>

theorem C8_restart_counterexample:
  "SaveData [(''42'', record_42 1700000000000 1700000000001)] \<in> set (effects example_connected)
   \<and> connectedShades (startup (Some [(''42'', record_42 1700000000000 1700000000001)])) = []
   \<and> map_option online
        (map_of (shadesDB (startup (Some [(''42'', record_42 1700000000000 1700000000001)]))) ''42'')
      = Some True
   \<and> \<not> online_consistent (startup (Some [(''42'', record_42 1700000000000 1700000000001)]))"
proof -
  have "effects example_connected = effects example_upgraded @
      [SaveData [(''42'', record_42 1700000000000 1700000000001)],
       PublishShadeDiscovery ''42'' (record_42 1700000000000 1700000000001),
       PublishShadeState ''42'' (Some 850) True]"
    by (simp add: example_connected_eq ingest_status_42_fresh example_upgraded_fields
        example_env_now)
  then have "SaveData [(''42'', record_42 1700000000000 1700000000001)] \<in> set (effects example_connected)"
    by simp
  then show ?thesis
    by (simp add: startup_def loadData_def online_consistent_def record_42_def)
qed

text \<open>
  C9. An upgrade request whose \<^verbatim>\<open>sec-websocket-key\<close> header is absent or empty is
  rejected: the socket is destroyed, nothing is written to it and no handler is
  registered. For a request with a key \<open>k\<close> the response that is written is the
  101 status line, the two upgrade headers and \<^verbatim>\<open>Sec-WebSocket-Accept\<close> with the token
  \<open>base64 (sha1 (k @ ''258EAFA5-E914-47DA-95CA-C5AB0DC85B11''))\<close>, followed by the
  protocol header when the request named one.
\<close>

theorem C9_handshake:
  "(key = None \<or> key = Some [] \<longrightarrow>
      effects (on_upgrade E socket key protocol st) = effects st @ [SocketDestroy socket]
    \<and> socket \<in> destroyed (on_upgrade E socket key protocol st)
    \<and> upgraded (on_upgrade E socket key protocol st) = upgraded st)
   \<and> (\<forall>k. key = Some k \<and> k \<noteq> [] \<longrightarrow>
      effects (on_upgrade E socket key protocol st) = effects st @
        [SocketWriteText socket
           (''HTTP/1.1 101 Switching Protocols'' @ CRLF
            @ ''Upgrade: websocket'' @ CRLF
            @ ''Connection: Upgrade'' @ CRLF
            @ ''Sec-WebSocket-Accept: ''
            @ base64 E (sha1 E (k @ ''258EAFA5-E914-47DA-95CA-C5AB0DC85B11''))
            @ (if truthy_string protocol then CRLF @ ''Sec-WebSocket-Protocol: '' @ the protocol
               else [])
            @ CRLF @ CRLF)])"
  by (auto simp add: on_upgrade_def truthy_string_def emit_def Let_def WS_GUID_def)

text \<open>
  The theorem for a request without a key and for the request of RFC 6455's example,
  whose accept token is \<^verbatim>\<open>s3pPLMBiTxaQ9kYGzzhZRbK+xOo=\<close>.
\<close>

theorem C9_handshake_witness:
  "effects (on_upgrade example_env 7 None None (startup None)) = [SocketDestroy 7]
   \<and> effects (on_upgrade example_env 7 (Some example_key) None (startup None)) =
       [SocketWriteText 7
          (''HTTP/1.1 101 Switching Protocols'' @ CRLF
           @ ''Upgrade: websocket'' @ CRLF
           @ ''Connection: Upgrade'' @ CRLF
           @ ''Sec-WebSocket-Accept: s3pPLMBiTxaQ9kYGzzhZRbK+xOo='' @ CRLF @ CRLF)]"
proof -
  have e: "effects (startup None) = []"
    by (simp add: startup_def loadData_def)
  have d: "base64 example_env (sha1 example_env (example_key @ ''258EAFA5-E914-47DA-95CA-C5AB0DC85B11''))
      = ''s3pPLMBiTxaQ9kYGzzhZRbK+xOo=''"
    by (simp add: example_env_def example_key_def WS_GUID_def)
  have "effects (on_upgrade example_env 7 None None (startup None)) = [SocketDestroy 7]"
    using C9_handshake [of None example_env 7 None "startup None"] by (simp add: e)
  moreover have "effects (on_upgrade example_env 7 (Some example_key) None (startup None)) =
       [SocketWriteText 7
          (''HTTP/1.1 101 Switching Protocols'' @ CRLF
           @ ''Upgrade: websocket'' @ CRLF
           @ ''Connection: Upgrade'' @ CRLF
           @ ''Sec-WebSocket-Accept: s3pPLMBiTxaQ9kYGzzhZRbK+xOo='' @ CRLF @ CRLF)]"
    using C9_handshake [of "Some example_key" example_env 7 None "startup None"] d
    by (simp add: e truthy_string_def example_key_def)
  ultimately show ?thesis by blast
qed

text \<open>
  C10. A text or binary frame whose payload parses as JSON and whose \<^verbatim>\<open>chipID\<close> is
  absent or 0 changes nothing: the state after the message is the state before it (no
  record, no entry of \<^verbatim>\<open>connectedShades\<close>, no call of \<^verbatim>\<open>saveData\<close> or of a
  publisher, nothing written to or ended on the socket), the read loop goes on, and a
  buffer that holds exactly this frame is consumed to the empty buffer.
\<close>

theorem C10_falsy_chipID_dropped:
  assumes "opcode f = 0x1 \<or> opcode f = 0x2"
    and "JSON_parse E (payload f) = Data d"
    and "data_chipID d = None \<or> data_chipID d = Some 0"
  shows "on_message E socket (payload f) st = st
       \<and> handle_frame E socket f st = (True, st)
       \<and> (\<forall>buf. parseWebSocketFrame buf = Inr (Some f) \<and> length buf = totalLength f
              \<longrightarrow> data_loop E socket buf st = ([], st))"
proof -
  have m: "on_message E socket (payload f) st = st"
    using assms(2,3) by (auto simp add: on_message_def truthy_number_def)
  have h: "handle_frame E socket f st = (True, st)"
    using assms(1) m by (auto simp add: handle_frame_def)
  have "data_loop E socket buf st = ([], st)"
    if "parseWebSocketFrame buf = Inr (Some f)" and "length buf = totalLength f" for buf
    using data_loop_one_frame [OF that(1) h] that(2) by simp
  with m h show ?thesis by blast
qed

text \<open>The theorem for the message \<^verbatim>\<open>{"chipID":0}\<close> on socket 7 of the example run.\<close>

theorem C10_falsy_chipID_dropped_witness:
  "handle_frame example_env 7
     \<lparr>opcode = 1, payload = bytes_of_string chipID_0_text, totalLength = 14\<rparr> example_connected
     = (True, example_connected)
   \<and> data_loop example_env 7 (text_frame chipID_0_text) example_connected = ([], example_connected)"
proof -
  let ?f = "\<lparr>opcode = 1, payload = bytes_of_string chipID_0_text, totalLength = 14\<rparr>"
  have l: "length chipID_0_text = 12"
    by (simp add: chipID_0_text_def)
  have p: "parseWebSocketFrame (text_frame chipID_0_text) = Inr (Some ?f)"
    by (simp add: text_frame_def l parseWebSocketFrame_def read_payloadLength_def Let_def
        slice_def bytes_of_string_def)
  have ne: "bytes_of_string chipID_0_text \<noteq> bytes_of_string status_42_text"
  proof
    assume "bytes_of_string chipID_0_text = bytes_of_string status_42_text"
    then have "length (bytes_of_string chipID_0_text) = length (bytes_of_string status_42_text)"
      by simp
    then show False by (simp add: bytes_of_string_def l length_status_42_text)
  qed
  have ne2: "bytes_of_string chipID_0_text \<noteq> bytes_of_string ''{}''"
  proof
    assume "bytes_of_string chipID_0_text = bytes_of_string ''{}''"
    then have "length (bytes_of_string chipID_0_text) = length (bytes_of_string ''{}'')"
      by simp
    then show False by (simp add: bytes_of_string_def l)
  qed
  have j: "JSON_parse example_env (payload ?f) =
      Data \<lparr>data_chipID = Some 0, data_model = None, data_version = None, data_position = None\<rparr>"
    using ne ne2 by (simp add: example_env_def)
  have o: "opcode ?f = 0x1 \<or> opcode ?f = 0x2" by simp
  have len: "length (text_frame chipID_0_text) = totalLength ?f"
    by (simp add: text_frame_def bytes_of_string_def l)
  from C10_falsy_chipID_dropped [OF o j, of 7 example_connected] p len
  show ?thesis by simp
qed

end
